theory Spec2Isabelle
  imports Main "HOL-Library.Char_ord" "HOL-Library.List_Lexorder"
begin

section \<open>Census block processing: \<open>census_parquet/process_blocks.py\<close>\<close>

text \<open>
  The script builds two tables from per-state census files: block geometries and block
  populations. Both are indexed by the block identifier \<open>GEOID\<close>, a Python string.
  Strings are compared as Python compares them, character by character, which is the
  lexicographic order on \<open>char list\<close>.
\<close>

subsection \<open>String primitives used by the script\<close>

text \<open>
  Python's \<open>s.rstrip(chars)\<close>: \<open>chars\<close> is a set of characters, and the longest
  trailing run of characters from that set is removed.
\<close>

definition rstrip :: "string \<Rightarrow> string \<Rightarrow> string" where
  "rstrip chars s = rev (dropWhile (\<lambda>c. c \<in> set chars) (rev s))"

text \<open>
  Python's \<open>s.replace(old, new)\<close>, which pandas' \<open>Series.str.replace\<close> applies to every
  element (the pattern of the script has no regular-expression metacharacter, so the
  literal and the regular-expression reading agree). The string is scanned from the left;
  wherever \<open>old\<close> starts, \<open>new\<close> is emitted and the scan resumes behind the match. Every
  occurrence is replaced, not only one at the start.
\<close>

function replace_scan :: "string \<Rightarrow> string \<Rightarrow> string \<Rightarrow> string" where
  "replace_scan old new s =
     (if old = [] \<or> s = [] then s
      else if take (length old) s = old
           then new @ replace_scan old new (drop (length old) s)
           else hd s # replace_scan old new (tl s))"
  by pat_completeness auto
termination
  by (relation "measure (\<lambda>(old, new, s). length s)") auto

declare replace_scan.simps [simp del]

definition str_replace :: "string \<Rightarrow> string \<Rightarrow> string \<Rightarrow> string" where
  "str_replace old new s =
     (if old = [] then new @ concat (map (\<lambda>c. c # new) s) else replace_scan old new s)"

text \<open>Line 121: \<open>block_df["GEOID"].str.replace("7500000US", "")\<close>.\<close>

definition GEOID_PREFIX :: string where
  "GEOID_PREFIX = ''7500000US''"

definition normalize_geoid :: "string \<Rightarrow> string" where
  "normalize_geoid g = str_replace GEOID_PREFIX [] g"

text \<open>\<open>occurs_in old s\<close>: the string \<open>old\<close> occurs somewhere in \<open>s\<close>.\<close>

fun occurs_in :: "string \<Rightarrow> string \<Rightarrow> bool" where
  "occurs_in old [] = (old = [])"
| "occurs_in old (c # cs) = (take (length old) (c # cs) = old \<or> occurs_in old cs)"

text \<open>
  The identifier of a block is made of digits: the codes of state, county, tract and
  block.
\<close>

definition digits :: "char set" where
  "digits = set ''0123456789''"

text \<open>
  \<open>s.split(sep)\<close> with an explicit separator: every occurrence of the separator cuts,
  and adjacent separators give empty pieces.
\<close>

fun split_on :: "char \<Rightarrow> string \<Rightarrow> string list" where
  "split_on sep [] = [[]]"
| "split_on sep (c # cs) =
     (if c = sep then [] # split_on sep cs
      else (case split_on sep cs of [] \<Rightarrow> [[c]] | p # ps \<Rightarrow> (c # p) # ps))"

text \<open>\<open>s.lower()\<close> on the ASCII letters, which is all the lookup table holds.\<close>

definition lower_char :: "char \<Rightarrow> char" where
  "lower_char c =
     (if CHR ''A'' \<le> c \<and> c \<le> CHR ''Z'' then char_of (of_char c + (32 :: nat)) else c)"

definition lower :: "string \<Rightarrow> string" where
  "lower s = map lower_char s"

subsection \<open>Errors\<close>

text \<open>Every exception the script can raise is a value; \<open>Inl\<close> carries the exception.\<close>

datatype error =
  AssertionError | KeyError | IndexError | TypeError | ValueError | MergeError
  | FileNotFoundError

definition ebind :: "error + 'a \<Rightarrow> ('a \<Rightarrow> error + 'b) \<Rightarrow> error + 'b" where
  "ebind m f = (case m of Inl e \<Rightarrow> Inl e | Inr x \<Rightarrow> f x)"

subsection \<open>The lookup table and the region code of a file\<close>

definition statelookup :: "string \<rightharpoonup> string" where
  "statelookup = map_of
     [(''01'', ''AL''), (''02'', ''AK''), (''04'', ''AZ''), (''05'', ''AR''),
      (''06'', ''CA''), (''08'', ''CO''), (''09'', ''CT''), (''10'', ''DE''),
      (''11'', ''DC''), (''12'', ''FL''), (''13'', ''GA''), (''15'', ''HI''),
      (''16'', ''ID''), (''17'', ''IL''), (''18'', ''IN''), (''19'', ''IA''),
      (''20'', ''KS''), (''21'', ''KY''), (''22'', ''LA''), (''23'', ''ME''),
      (''24'', ''MD''), (''25'', ''MA''), (''26'', ''MI''), (''27'', ''MN''),
      (''28'', ''MS''), (''29'', ''MO''), (''30'', ''MT''), (''31'', ''NE''),
      (''32'', ''NV''), (''33'', ''NH''), (''34'', ''NJ''), (''35'', ''NM''),
      (''36'', ''NY''), (''37'', ''NC''), (''38'', ''ND''), (''39'', ''OH''),
      (''40'', ''OK''), (''41'', ''OR''), (''42'', ''PA''), (''44'', ''RI''),
      (''45'', ''SC''), (''46'', ''SD''), (''47'', ''TN''), (''48'', ''TX''),
      (''49'', ''UT''), (''50'', ''VT''), (''51'', ''VA''), (''53'', ''WA''),
      (''54'', ''WV''), (''55'', ''WI''), (''56'', ''WY''), (''72'', ''PR'')]"

text \<open>
  A source file is identified by its stem (\<open>file.stem\<close>, the file name without
  \<open>.zip\<close>). \<open>file.stem.split("_")[2]\<close> is its region code; the index raises when the
  stem has fewer than three pieces.
\<close>

definition fips_of :: "string \<Rightarrow> error + string" where
  "fips_of stem =
     (let parts = split_on CHR ''_'' stem
      in if 2 < length parts then Inr (parts ! 2) else Inl IndexError)"

subsection \<open>Tables\<close>

text \<open>
  A pandas table with a string index is the list of its rows, each with its index value.
  A dask table is a list of such partitions with its \<open>divisions\<close>: the index boundaries
  of the partitions when they are known, \<open>None\<close> when they are not.
\<close>

type_synonym 'a frame = "(string \<times> 'a) list"

record 'a ddf =
  partitions :: "'a frame list"
  divisions :: "string list option"

definition known_divisions :: "'a ddf \<Rightarrow> bool" where
  "known_divisions d = (divisions d \<noteq> None)"

text \<open>
  \<open>dask.dataframe.from_pandas(df, npartitions=1)\<close> (and \<open>dask_geopandas.from_geopandas\<close>,
  which calls it): an empty table has unknown divisions; otherwise the table is sorted by
  its index unless it is already increasing, and the divisions are the first and the last
  index value. Rows with equal index values keep their order here; the library's sort does
  not promise that.
\<close>

definition from_pandas :: "'a frame \<Rightarrow> 'a ddf" where
  "from_pandas df =
     (if df = [] then \<lparr>partitions = [df], divisions = None\<rparr>
      else let data = (if sorted (map fst df) then df else sort_key fst df)
           in \<lparr>partitions = [data], divisions = Some [fst (hd data), fst (last data)]\<rparr>)"

text \<open>
  \<open>dask.dataframe.concat(dfs)\<close> along the rows: the partitions are stacked in the order
  given. The divisions of the result are known only if every input has known divisions
  and the last division of each input is strictly below the first division of the next.
\<close>

fun divisions_ordered :: "string list list \<Rightarrow> bool" where
  "divisions_ordered [] = True"
| "divisions_ordered [d] = True"
| "divisions_ordered (d1 # d2 # ds) = (last d1 < hd d2 \<and> divisions_ordered (d2 # ds))"

fun stack_divisions :: "string list list \<Rightarrow> string list" where
  "stack_divisions [] = []"
| "stack_divisions [d] = d"
| "stack_divisions (d1 # d2 # ds) = butlast d1 @ stack_divisions (d2 # ds)"

definition dd_concat :: "'a ddf list \<Rightarrow> error + 'a ddf" where
  "dd_concat dfs =
     (if dfs = [] then Inl ValueError
      else Inr \<lparr>partitions = concat (map partitions dfs),
                divisions =
                  (if (\<forall>d \<in> set dfs. known_divisions d)
                      \<and> divisions_ordered (map (\<lambda>d. the (divisions d)) dfs)
                   then Some (stack_divisions (map (\<lambda>d. the (divisions d)) dfs))
                   else None)\<rparr>)"

subsection \<open>The inputs and the parquet files\<close>

text \<open>
  Rows of the two population files of a state, with the columns the script names; the
  column names come from the spreadsheet \<open>SUMMARY_TABLE\<close> and are taken as given. The
  geo-header file gives \<open>SUMLEV\<close>, \<open>LOGRECNO\<close>, \<open>GEOID\<close> and \<open>STUSAB\<close>; the columns
  the script never reads are left out. The segment file gives the bookkeeping columns
  and the counts (\<open>P0010001\<close> and so on), kept as one list.
\<close>

record geohdr_row =
  g_SUMLEV :: int
  g_LOGRECNO :: int
  g_GEOID :: string
  g_STUSAB :: string

record seg_row =
  s_FILEID :: string
  s_STUSAB :: string
  s_CHARITER :: int
  s_CIFSN :: int
  s_LOGRECNO :: int
  s_counts :: "int list"

text \<open>
  The attribute table of a shapefile: column names and rows of cells. A cell is a text
  or a value of another kind (number, category, geometry), which the script only hands
  to library conversions.
\<close>

datatype 'v cell = Str string | Val 'v

record 'v table =
  columns :: "string list"
  rows :: "'v cell list list"

text \<open>
  What lies outside the script: the files it finds and reads, the conversions of numpy and
  pandas, and whether reading a parquet file recovers the divisions from the statistics
  stored in it (the parquet engine decides). Files are keyed by path; a missing file is
  \<open>None\<close>.
\<close>

record 'v world =
  glob_zip :: "string list"
  read_file :: "string \<rightharpoonup> 'v table"
  read_csv_seg :: "string \<rightharpoonup> seg_row list"
  read_csv_geo :: "string \<rightharpoonup> geohdr_row list"
  astype_cell :: "string \<Rightarrow> 'v cell \<Rightarrow> 'v cell option"
  to_numeric_cell :: "'v cell \<Rightarrow> 'v cell option"
  gather_statistics :: "string \<Rightarrow> bool"

text \<open>The parquet files written so far: population tables and geometry tables.\<close>

type_synonym pop_row = "int list option"
type_synonym 'v geo_row = "(string \<times> 'v cell) list"

record 'v fs =
  pq_pop :: "string \<rightharpoonup> pop_row ddf"
  pq_geo :: "string \<rightharpoonup> 'v geo_row ddf"

definition to_parquet :: "string \<Rightarrow> 'a ddf \<Rightarrow> (string \<rightharpoonup> 'a ddf) \<Rightarrow> (string \<rightharpoonup> 'a ddf)" where
  "to_parquet path d store = store(path \<mapsto> d)"

definition read_parquet ::
  "'v world \<Rightarrow> string \<Rightarrow> (string \<rightharpoonup> 'a ddf) \<Rightarrow> error + 'a ddf" where
  "read_parquet w path store =
     (case store path of
        None \<Rightarrow> Inl FileNotFoundError
      | Some d \<Rightarrow>
          Inr (d\<lparr>divisions := (if gather_statistics w path then divisions d else None)\<rparr>))"

subsection \<open>\<open>process_pop\<close>\<close>

text \<open>
  \<open>pd.merge(left, right, how="left", on="LOGRECNO")\<close>: every left row, in order, with
  each right row of the same \<open>LOGRECNO\<close>; a left row without a match is kept once, with
  empty right columns.
\<close>

definition merge_left ::
  "geohdr_row list \<Rightarrow> seg_row list \<Rightarrow> (geohdr_row \<times> seg_row option) list" where
  "merge_left left right =
     concat (map (\<lambda>l.
       (case filter (\<lambda>r. s_LOGRECNO r = g_LOGRECNO l) right of
          [] \<Rightarrow> [(l, None)]
        | ms \<Rightarrow> map (\<lambda>r. (l, Some r)) ms)) left)"

text \<open>
  Lines 113 to 122: keep the rows with \<open>SUMLEV == 750\<close>, merge, drop the bookkeeping
  columns, replace in \<open>GEOID\<close>, make it the index and sort by it.
\<close>

definition block_rows :: "geohdr_row list \<Rightarrow> seg_row list \<Rightarrow> pop_row frame" where
  "block_rows geo_df seg_1_df =
     map (\<lambda>(g, m). (normalize_geoid (g_GEOID g), map_option s_counts m))
       (merge_left (filter (\<lambda>g. g_SUMLEV g = 750) geo_df) seg_1_df)"

definition block_table :: "geohdr_row list \<Rightarrow> seg_row list \<Rightarrow> pop_row frame" where
  "block_table geo_df seg_1_df = sort_key fst (block_rows geo_df seg_1_df)"

text \<open>The paths of lines 87, 88 and 127.\<close>

definition state_1_path :: "string \<Rightarrow> string" where
  "state_1_path ABBR = ''population_stats/'' @ lower ABBR @ ''000012020.pl''"

definition state_geo_path :: "string \<Rightarrow> string" where
  "state_geo_path ABBR = ''population_stats/'' @ lower ABBR @ ''geo2020.pl''"

definition pop_output :: "string \<Rightarrow> string" where
  "pop_output FIPS = ''tmp/pop/'' @ FIPS @ ''.parquet''"

definition process_pop :: "'v world \<Rightarrow> string \<Rightarrow> 'v fs \<Rightarrow> error + (string \<times> 'v fs)" where
  "process_pop w file st =
     ebind (fips_of file) (\<lambda>FIPS.
       (case statelookup FIPS of
          None \<Rightarrow> Inl KeyError
        | Some ABBR \<Rightarrow>
            (let state_1 = state_1_path ABBR;
                 state_geo = state_geo_path ABBR
             in (case read_csv_seg w state_1 of
                   None \<Rightarrow> Inl FileNotFoundError
                 | Some seg_1_df \<Rightarrow>
                     (case read_csv_geo w state_geo of
                        None \<Rightarrow> Inl FileNotFoundError
                      | Some geo_df \<Rightarrow>
                          (let block_df = block_table geo_df seg_1_df
                           in if \<not> distinct (map fst block_df) then Inl AssertionError
                              else (let output = pop_output FIPS
                                    in Inr (output,
                                         st\<lparr>pq_pop :=
                                           to_parquet output (from_pandas block_df)
                                             (pq_pop st)\<rparr>))))))))"

subsection \<open>\<open>process_geo\<close>\<close>

text \<open>\<open>DataFrame.drop(columns=labels)\<close>: a label that is no column raises.\<close>

definition drop_columns :: "string list \<Rightarrow> 'v table \<Rightarrow> error + 'v table" where
  "drop_columns labels t =
     (if \<exists>l \<in> set labels. l \<notin> set (columns t) then Inl KeyError
      else Inr \<lparr>columns = filter (\<lambda>c. c \<notin> set labels) (columns t),
                rows = map (\<lambda>r. map snd (filter (\<lambda>(c, v). c \<notin> set labels)
                                             (zip (columns t) r))) (rows t)\<rparr>)"

text \<open>\<open>DataFrame.rename(columns=f)\<close>: the function is applied to every column name.\<close>

definition rename_columns :: "(string \<Rightarrow> string) \<Rightarrow> 'v table \<Rightarrow> 'v table" where
  "rename_columns f t = t\<lparr>columns := map f (columns t)\<rparr>"

text \<open>
  \<open>DataFrame.astype(dtypes)\<close> with a dictionary: a key that is no column raises; the
  cells of the named columns are converted, and a cell that cannot be converted raises.
\<close>

definition astype :: "'v world \<Rightarrow> (string \<times> string) list \<Rightarrow> 'v table \<Rightarrow> error + 'v table" where
  "astype w dtypes t =
     (if \<exists>c \<in> set (map fst dtypes). c \<notin> set (columns t) then Inl KeyError
      else (case those (map (\<lambda>r. those (map (\<lambda>(c, v).
                    (case map_of dtypes c of
                       None \<Rightarrow> Some v
                     | Some ty \<Rightarrow> astype_cell w ty v)) (zip (columns t) r))) (rows t)) of
              None \<Rightarrow> Inl ValueError
            | Some rs \<Rightarrow> Inr (t\<lparr>rows := rs\<rparr>)))"

text \<open>
  \<open>DataFrame.set_index(label)\<close>: the column becomes the index and leaves the columns.
  Nothing checks that the index values are unique (\<open>verify_integrity\<close> is off by
  default). The index of this script is the text column \<open>GEOID\<close>; a table whose cell
  there is not a text gives \<open>TypeError\<close> here, and a table with several columns of
  that name gives \<open>ValueError\<close>.
\<close>

record 'v itable =
  icolumns :: "string list"
  irows :: "'v cell list frame"

definition set_index :: "string \<Rightarrow> 'v table \<Rightarrow> error + 'v itable" where
  "set_index label t =
     (if label \<notin> set (columns t) then Inl KeyError
      else if count_list (columns t) label \<noteq> 1 then Inl ValueError
      else (case those (map (\<lambda>r.
                    (case map_of (zip (columns t) r) label of
                       Some (Str k) \<Rightarrow>
                         Some (k, map snd (filter (\<lambda>(c, v). c \<noteq> label) (zip (columns t) r)))
                     | _ \<Rightarrow> None)) (rows t)) of
              None \<Rightarrow> Inl TypeError
            | Some rs \<Rightarrow> Inr \<lparr>icolumns = filter (\<lambda>c. c \<noteq> label) (columns t), irows = rs\<rparr>))"

text \<open>\<open>gdf[label] = pd.to_numeric(gdf[label])\<close>.\<close>

definition to_numeric :: "'v world \<Rightarrow> string \<Rightarrow> 'v itable \<Rightarrow> error + 'v itable" where
  "to_numeric w label g =
     (if label \<notin> set (icolumns g) then Inl KeyError
      else if count_list (icolumns g) label \<noteq> 1 then Inl TypeError
      else (case those (map (\<lambda>(k, r). map_option (Pair k) (those (map (\<lambda>(c, v).
                    (if c = label then to_numeric_cell w v else Some v))
                    (zip (icolumns g) r)))) (irows g)) of
              None \<Rightarrow> Inl ValueError
            | Some rs \<Rightarrow> Inr (g\<lparr>irows := rs\<rparr>)))"

definition named_rows :: "'v itable \<Rightarrow> 'v geo_row frame" where
  "named_rows g = map (\<lambda>(k, r). (k, zip (icolumns g) r)) (irows g)"

definition geo_table :: "'v world \<Rightarrow> 'v table \<Rightarrow> error + 'v itable" where
  "geo_table w t =
     ebind (drop_columns [''MTFCC20'', ''UR20'', ''UACE20'', ''UATYPE20'', ''FUNCSTAT20'',
                          ''NAME20''] t) (\<lambda>t.
     ebind (astype w [(''STATEFP'', ''category''), (''COUNTYFP'', ''category''),
                      (''TRACTCE'', ''int''), (''BLOCKCE'', ''int'')]
              (rename_columns (\<lambda>x. rstrip ''20'' x) t)) (\<lambda>t.
     ebind (set_index ''GEOID'' t) (\<lambda>gdf.
     ebind (to_numeric w ''INTPTLON'' gdf) (\<lambda>gdf.
     to_numeric w ''INTPTLAT'' gdf))))"

text \<open>The path of line 153.\<close>

definition geo_output :: "string \<Rightarrow> string" where
  "geo_output FIPS = ''tmp/geo/'' @ FIPS @ ''.parquet''"

definition process_geo :: "'v world \<Rightarrow> string \<Rightarrow> 'v fs \<Rightarrow> error + (string \<times> 'v fs)" where
  "process_geo w file st =
     (case read_file w file of
        None \<Rightarrow> Inl FileNotFoundError
      | Some t \<Rightarrow>
          ebind (geo_table w t) (\<lambda>gdf.
          ebind (fips_of file) (\<lambda>FIPS.
            (let output = geo_output FIPS
             in Inr (output,
                  st\<lparr>pq_geo :=
                    to_parquet output (from_pandas (named_rows gdf)) (pq_geo st)\<rparr>)))))"

subsection \<open>\<open>process\<close>\<close>

text \<open>
  \<open>pd.merge(left, right)\<close> checks its operands first: an operand that is not a table
  raises \<open>TypeError\<close>. Two tables are joined (inner join) on the columns they share;
  with no shared column it raises \<open>MergeError\<close>. \<open>len\<close> of a path raises, \<open>len\<close>
  of a table is its number of rows.
\<close>

datatype 'v pyobj = PathObj string | DataFrameObj "'v table"

definition pd_merge :: "'v pyobj \<Rightarrow> 'v pyobj \<Rightarrow> error + 'v table" where
  "pd_merge left right =
     (case left of
        PathObj _ \<Rightarrow> Inl TypeError
      | DataFrameObj l \<Rightarrow>
          (case right of
             PathObj _ \<Rightarrow> Inl TypeError
           | DataFrameObj r \<Rightarrow>
               (let common = filter (\<lambda>c. c \<in> set (columns r)) (columns l)
                in if common = [] then Inl MergeError
                   else Inr \<lparr>columns = columns l @ filter (\<lambda>c. c \<notin> set common) (columns r),
                             rows = concat (map (\<lambda>lr. map (\<lambda>rr.
                                        lr @ map snd (filter (\<lambda>(c, v). c \<notin> set common)
                                                        (zip (columns r) rr)))
                                      (filter (\<lambda>rr. \<forall>c \<in> set common.
                                           map_of (zip (columns l) lr) c
                                           = map_of (zip (columns r) rr) c) (rows r)))
                                    (rows l))\<rparr>)))"

definition py_len :: "'v pyobj \<Rightarrow> error + nat" where
  "py_len x = (case x of PathObj _ \<Rightarrow> Inl TypeError | DataFrameObj t \<Rightarrow> Inr (length (rows t)))"

definition process ::
  "'v world \<Rightarrow> string \<Rightarrow> 'v fs \<Rightarrow> error + ((string \<times> string \<times> string option) \<times> 'v fs)" where
  "process w file st =
     ebind (process_geo w file st) (\<lambda>(geo, st).
     ebind (fips_of file) (\<lambda>FIPS.
       if statelookup FIPS \<noteq> None then
         ebind (process_pop w file st) (\<lambda>(pop, st).
         ebind (pd_merge (PathObj geo :: 'v pyobj) (PathObj pop)) (\<lambda>result.
         ebind (py_len (PathObj geo :: 'v pyobj)) (\<lambda>n.
           if length (rows result) = n then Inr ((file, geo, Some pop), st)
           else Inl AssertionError)))
       else Inr ((file, geo, None), st)))"

subsection \<open>\<open>main\<close>\<close>

text \<open>
  The list comprehension of lines 177 to 181: the files whose region code is in the
  lookup table. Computing the region code of a file may raise.
\<close>

fun select_pops :: "string list \<Rightarrow> error + string list" where
  "select_pops [] = Inr []"
| "select_pops (file # files) =
     ebind (fips_of file) (\<lambda>FIPS.
     ebind (select_pops files) (\<lambda>rest.
       Inr (if statelookup FIPS \<noteq> None then file # rest else rest)))"

text \<open>
  \<open>dask.compute(*tasks)\<close>: every task runs and the results come back in the order of the
  tasks; the first exception ends the run. The tasks are run here one after the other.
\<close>

fun compute :: "('s \<Rightarrow> error + ('a \<times> 's)) list \<Rightarrow> 's \<Rightarrow> error + ('a list \<times> 's)" where
  "compute [] st = Inr ([], st)"
| "compute (task # tasks) st =
     ebind (task st) (\<lambda>(x, st).
     ebind (compute tasks st) (\<lambda>(xs, st). Inr (x # xs, st)))"

fun read_all :: "(string \<Rightarrow> error + 'a) \<Rightarrow> string list \<Rightarrow> error + 'a list" where
  "read_all rd [] = Inr []"
| "read_all rd (f # fs) =
     ebind (rd f) (\<lambda>d. ebind (read_all rd fs) (\<lambda>ds. Inr (d # ds)))"

definition OUT_POP :: string where
  "OUT_POP = ''outputs/census_blocks_population.parquet''"

definition OUT_GEO :: string where
  "OUT_GEO = ''outputs/census_blocks_geo.parquet''"

text \<open>
  The driver, in two parts. Lines 175 to 194: find the files, run the extractions, read
  the tables of the units back in the order of their sorted paths and concatenate them.
  The paths of one kind differ only in the region code of the file name, so sorting the
  paths is sorting their strings.
\<close>

definition main_concat ::
  "'v world \<Rightarrow> 'v fs \<Rightarrow> error + (pop_row ddf \<times> 'v geo_row ddf \<times> 'v fs)" where
  "main_concat w st =
     (let files = glob_zip w; geos = map (process_geo w) files
      in ebind (select_pops files) (\<lambda>pop_inputs.
         (let pops = map (process_pop w) pop_inputs
          in if length geos = 0 then Inl AssertionError
             else if length pops = 0 then Inl AssertionError
             else
               ebind (compute geos st) (\<lambda>(geo_files, st).
               ebind (compute pops st) (\<lambda>(pop_files, st).
               ebind (read_all (\<lambda>f. read_parquet w f (pq_pop st)) (sort pop_files)) (\<lambda>pop_parts.
               ebind (dd_concat pop_parts) (\<lambda>pop.
               ebind (read_all (\<lambda>f. read_parquet w f (pq_geo st)) (sort geo_files)) (\<lambda>geo_parts.
               ebind (dd_concat geo_parts) (\<lambda>geo.
                 Inr (pop, geo, st))))))))))"

text \<open>
  Lines 195 to 216: the two assertions, the two writes, and the assertions on the tables
  read back. \<open>calculate_spatial_partitions\<close> touches neither the index nor the
  partitions and is left out. The result is the state of the parquet files after the run.
\<close>

definition main :: "'v world \<Rightarrow> 'v fs \<Rightarrow> error + 'v fs" where
  "main w st =
     ebind (main_concat w st) (\<lambda>(pop, geo, st).
       if \<not> known_divisions pop then Inl AssertionError
       else if \<not> known_divisions geo then Inl AssertionError
       else
         (let st = st\<lparr>pq_pop := to_parquet OUT_POP pop (pq_pop st)\<rparr>;
              st = st\<lparr>pq_geo := to_parquet OUT_GEO geo (pq_geo st)\<rparr>
          in ebind (read_parquet w OUT_POP (pq_pop st)) (\<lambda>a.
               if \<not> known_divisions a then Inl AssertionError
               else
                 ebind (read_parquet w OUT_GEO (pq_geo st)) (\<lambda>b.
                   if \<not> known_divisions b then Inl AssertionError
                   else Inr st))))"

subsection \<open>What an extraction writes\<close>

text \<open>
  The path and the table that \<open>process_pop\<close> and \<open>process_geo\<close> write for a file,
  read off a call on an empty state; \<open>None\<close> when the call raises.
\<close>

definition no_files :: "'v fs" where
  "no_files = \<lparr>pq_pop = Map.empty, pq_geo = Map.empty\<rparr>"

definition written_pop :: "'v world \<Rightarrow> string \<Rightarrow> (string \<times> pop_row ddf) option" where
  "written_pop w file =
     (case process_pop w file no_files of
        Inl e \<Rightarrow> None
      | Inr (path, st) \<Rightarrow> map_option (Pair path) (pq_pop st path))"

definition written_geo :: "'v world \<Rightarrow> string \<Rightarrow> (string \<times> 'v geo_row ddf) option" where
  "written_geo w file =
     (case process_geo w file no_files of
        Inl e \<Rightarrow> None
      | Inr (path, st) \<Rightarrow> map_option (Pair path) (pq_geo st path))"

text \<open>The exception of a result; only used where the result is one.\<close>

definition raised :: "error + 'a \<Rightarrow> error" where
  "raised r = (case r of Inl e \<Rightarrow> e | Inr x \<Rightarrow> AssertionError)"

text \<open>
  The identifier of a record of a shapefile as \<open>process_geo\<close> finds it: the text in
  the column that the rename of line 145 calls \<open>GEOID\<close>.
\<close>

definition geoid_of :: "string list \<Rightarrow> 'v cell list \<Rightarrow> string" where
  "geoid_of cols r =
     (case map_of (zip (map (rstrip ''20'') cols) r) ''GEOID'' of
        Some (Str k) \<Rightarrow> k
      | _ \<Rightarrow> [])"

subsection \<open>Properties of tables\<close>

text \<open>
  \<open>key_ranges_increasing ps\<close>: the partitions are pairwise disjoint in their index values
  and come in increasing order, that is, every index value of a partition is below every
  index value of each later partition.
\<close>

definition key_ranges_increasing :: "'a frame list \<Rightarrow> bool" where
  "key_ranges_increasing ps =
     sorted_wrt (\<lambda>p q. \<forall>k \<in> set (map fst p). \<forall>k' \<in> set (map fst q). k < k') ps"

text \<open>
  \<open>bounded ps ds\<close>: the divisions \<open>ds\<close> are true of the partitions \<open>ps\<close>. There is one
  more division than partitions, the divisions increase, and the index values of a
  partition lie between its two divisions, below the upper one for all but the last.
\<close>

fun bounded :: "'a frame list \<Rightarrow> string list \<Rightarrow> bool" where
  "bounded [p] [lo, hi] = (lo \<le> hi \<and> (\<forall>k \<in> set (map fst p). lo \<le> k \<and> k \<le> hi))"
| "bounded (p # q # ps) (lo # hi # ds) =
     (lo \<le> hi \<and> (\<forall>k \<in> set (map fst p). lo \<le> k \<and> k < hi) \<and> bounded (q # ps) (hi # ds))"
| "bounded _ _ = False"

definition truthful :: "'a ddf \<Rightarrow> bool" where
  "truthful d = (case divisions d of None \<Rightarrow> True | Some ds \<Rightarrow> bounded (partitions d) ds)"

subsection \<open>A small run\<close>

text \<open>
  Two source files: California (\<open>06\<close>, in the lookup table) with three blocks, and the
  Virgin Islands (\<open>78\<close>, not in the table) with one. The geo-header file of California
  starts with a state-level row; one block has no segment record, and one segment record
  (\<open>LOGRECNO\<close> 9) has no block.
\<close>

definition example_columns :: "string list" where
  "example_columns =
     [''STATEFP20'', ''COUNTYFP20'', ''TRACTCE20'', ''BLOCKCE20'', ''GEOID20'', ''NAME20'',
      ''MTFCC20'', ''UR20'', ''UACE20'', ''UATYPE20'', ''FUNCSTAT20'', ''ALAND20'',
      ''AWATER20'', ''INTPTLAT20'', ''INTPTLON20'', ''geometry'']"

definition example_row :: "string \<Rightarrow> string \<Rightarrow> string cell list" where
  "example_row state geoid =
     [Str state, Str ''001'', Str ''400100'', Str ''1000'', Str geoid, Str ''Block 1000'',
      Str ''G5040'', Str ''U'', Str [], Str [], Str ''S'', Val ''100'', Val ''0'',
      Str ''+37.8'', Str ''-122.2'', Val ''POLYGON'']"

definition example_seg :: "seg_row list" where
  "example_seg =
     [\<lparr>s_FILEID = ''PLST'', s_STUSAB = ''CA'', s_CHARITER = 0, s_CIFSN = 1,
       s_LOGRECNO = 1, s_counts = [39538223]\<rparr>,
      \<lparr>s_FILEID = ''PLST'', s_STUSAB = ''CA'', s_CHARITER = 0, s_CIFSN = 1,
       s_LOGRECNO = 7, s_counts = [12]\<rparr>,
      \<lparr>s_FILEID = ''PLST'', s_STUSAB = ''CA'', s_CHARITER = 0, s_CIFSN = 1,
       s_LOGRECNO = 8, s_counts = [0]\<rparr>,
      \<lparr>s_FILEID = ''PLST'', s_STUSAB = ''CA'', s_CHARITER = 0, s_CIFSN = 1,
       s_LOGRECNO = 9, s_counts = [31]\<rparr>]"

definition state_level_row :: geohdr_row where
  "state_level_row =
     \<lparr>g_SUMLEV = 40, g_LOGRECNO = 1, g_GEOID = ''0400000US06'', g_STUSAB = ''CA''\<rparr>"

definition example_blocks :: "geohdr_row list" where
  "example_blocks =
     [\<lparr>g_SUMLEV = 750, g_LOGRECNO = 8, g_GEOID = ''7500000US060014001001001'',
       g_STUSAB = ''CA''\<rparr>,
      \<lparr>g_SUMLEV = 750, g_LOGRECNO = 7, g_GEOID = ''7500000US060014001001000'',
       g_STUSAB = ''CA''\<rparr>,
      \<lparr>g_SUMLEV = 750, g_LOGRECNO = 10, g_GEOID = ''7500000US060014001001002'',
       g_STUSAB = ''CA''\<rparr>]"

definition example_convert :: "string cell \<Rightarrow> string cell option" where
  "example_convert v = (case v of Str s \<Rightarrow> Some (Val s) | Val x \<Rightarrow> Some (Val x))"

definition example_world :: "string world" where
  "example_world =
     \<lparr>glob_zip = [''tl_2020_78_tabblock20'', ''tl_2020_06_tabblock20''],
      read_file = map_of
        [(''tl_2020_06_tabblock20'',
            \<lparr>columns = example_columns,
             rows = [example_row ''06'' ''060014001001002'',
                     example_row ''06'' ''060014001001000'',
                     example_row ''06'' ''060014001001001'']\<rparr>),
         (''tl_2020_78_tabblock20'',
            \<lparr>columns = example_columns,
             rows = [example_row ''78'' ''780109701001000'']\<rparr>)],
      read_csv_seg = map_of [(''population_stats/ca000012020.pl'', example_seg)],
      read_csv_geo = map_of
        [(''population_stats/cageo2020.pl'', state_level_row # example_blocks)],
      astype_cell = (\<lambda>ty. example_convert),
      to_numeric_cell = example_convert,
      gather_statistics = (\<lambda>path. True)\<rparr>"

text \<open>
  Variants of the run. In the first the shapefile of California has a block whose
  identifier lies above those of the Virgin Islands, so the key ranges of the two units
  overlap. In the second the segment file of California has two records with
  \<open>LOGRECNO\<close> 7. In the third the shapefile of the Virgin Islands has the same
  identifier in two records. In the fourth the shapefile of California lacks a block that
  the population files have. In the fifth the geometry output read back has no divisions.
\<close>

definition overlap_world :: "string world" where
  "overlap_world =
     example_world\<lparr>read_file := (read_file example_world)(''tl_2020_06_tabblock20'' \<mapsto>
        \<lparr>columns = example_columns,
         rows = [example_row ''06'' ''060014001001000'',
                 example_row ''06'' ''790014001001000'']\<rparr>)\<rparr>"

definition duplicate_seg_world :: "string world" where
  "duplicate_seg_world =
     example_world\<lparr>read_csv_seg := map_of
        [(''population_stats/ca000012020.pl'',
          example_seg @
            [\<lparr>s_FILEID = ''PLST'', s_STUSAB = ''CA'', s_CHARITER = 0, s_CIFSN = 1,
              s_LOGRECNO = 7, s_counts = [13]\<rparr>])]\<rparr>"

definition duplicate_geoid_world :: "string world" where
  "duplicate_geoid_world =
     example_world\<lparr>read_file := (read_file example_world)(''tl_2020_78_tabblock20'' \<mapsto>
        \<lparr>columns = example_columns,
         rows = [example_row ''78'' ''780109701001000'',
                 example_row ''78'' ''780109701001000'']\<rparr>)\<rparr>"

definition orphan_world :: "string world" where
  "orphan_world =
     example_world\<lparr>read_file := (read_file example_world)(''tl_2020_06_tabblock20'' \<mapsto>
        \<lparr>columns = example_columns,
         rows = [example_row ''06'' ''060014001001000'',
                 example_row ''06'' ''060014001001001'']\<rparr>)\<rparr>"


section \<open>Verification\<close>

subsection \<open>Facts about the string primitives\<close>






lemma replace_scan_absent:
  "\<not> occurs_in old s \<Longrightarrow> replace_scan old new s = s"
proof (induction s)
  case Nil
  then show ?case by (simp add: replace_scan.simps)
next
  case (Cons c cs)
  then show ?case
    by (subst replace_scan.simps) auto
qed

lemma replace_scan_prefix:
  "old \<noteq> [] \<Longrightarrow> replace_scan old new (old @ t) = new @ replace_scan old new t"
  by (subst replace_scan.simps) simp

lemma occurs_in_set:
  "occurs_in old s \<Longrightarrow> set old \<subseteq> set s"
proof (induction s)
  case Nil
  then show ?case by simp
next
  case (Cons c cs)
  show ?case
  proof (cases "take (length old) (c # cs) = old")
    case True
    have "set (take (length old) (c # cs)) \<subseteq> set (c # cs)"
      by (rule set_take_subset)
    then show ?thesis
      unfolding True .
  next
    case False
    with Cons show ?thesis by auto
  qed
qed

lemma digits_no_prefix:
  "set t \<subseteq> digits \<Longrightarrow> \<not> occurs_in GEOID_PREFIX t"
proof
  assume d: "set t \<subseteq> digits" and o: "occurs_in GEOID_PREFIX t"
  from o have "set GEOID_PREFIX \<subseteq> set t"
    by (rule occurs_in_set)
  then have "CHR ''U'' \<in> digits"
    using d by (auto simp: GEOID_PREFIX_def)
  then show False
    by (simp add: digits_def)
qed

lemma normalize_geoid_absent:
  "\<not> occurs_in GEOID_PREFIX t \<Longrightarrow> normalize_geoid t = t"
  by (simp add: normalize_geoid_def str_replace_def GEOID_PREFIX_def replace_scan_absent)

lemma normalize_geoid_prefixed:
  "normalize_geoid (GEOID_PREFIX @ t) = normalize_geoid t"
  using replace_scan_prefix [of GEOID_PREFIX "[]" t]
  by (simp add: normalize_geoid_def str_replace_def GEOID_PREFIX_def)


subsection \<open>The column rename of \<open>process_geo\<close>\<close>



subsection \<open>The key replacement of \<open>process_pop\<close>\<close>

text \<open>
  C5: a raw identifier is the literal prefix followed by the identifier of a block, which
  is a string of digits. On raw identifiers the replacement of line 121 returns the
  identifier without the prefix. A key is returned unchanged, so replacing twice is
  replacing once. Two raw identifiers get the same key exactly when their identifiers
  behind the prefix are the same.
\<close>

theorem normalize_geoid_identifiers:
  assumes "set t \<subseteq> digits" and "set t' \<subseteq> digits"
  shows "normalize_geoid (GEOID_PREFIX @ t) = t
       \<and> normalize_geoid t = t
       \<and> normalize_geoid (normalize_geoid (GEOID_PREFIX @ t)) = normalize_geoid (GEOID_PREFIX @ t)
       \<and> (normalize_geoid (GEOID_PREFIX @ t) = normalize_geoid (GEOID_PREFIX @ t')
            \<longleftrightarrow> t = t')"
proof -
  from assms have "\<not> occurs_in GEOID_PREFIX t" and "\<not> occurs_in GEOID_PREFIX t'"
    by (simp_all add: digits_no_prefix)
  then have "normalize_geoid t = t" and "normalize_geoid t' = t'"
    by (simp_all add: normalize_geoid_absent)
  then show ?thesis
    by (simp add: normalize_geoid_prefixed)
qed

theorem normalize_geoid_identifiers_witness:
  "set ''060014001001000'' \<subseteq> digits \<and> set ''060014001001001'' \<subseteq> digits
   \<and> normalize_geoid ''7500000US060014001001000'' = ''060014001001000''
   \<and> normalize_geoid ''060014001001000'' = ''060014001001000''
   \<and> normalize_geoid ''7500000US060014001001000'' \<noteq> normalize_geoid ''7500000US060014001001001''"
proof -
  have d: "set ''060014001001000'' \<subseteq> digits"
    by (simp add: digits_def)
  have d': "set ''060014001001001'' \<subseteq> digits"
    by (simp add: digits_def)
  show ?thesis
    using d d' normalize_geoid_identifiers [OF d d']
    by (auto simp: GEOID_PREFIX_def)
qed

text \<open>
  A string that has the literal again behind the prefix is no raw identifier. There the
  replacement deletes that occurrence as well.
\<close>

lemma normalize_geoid_second_occurrence:
  "normalize_geoid ''7500000US7500000US'' = []"
  by code_simp

subsection \<open>Facts about \<open>process_pop\<close>\<close>

lemma ebind_Inr:
  "ebind m f = Inr y \<longleftrightarrow> (\<exists>x. m = Inr x \<and> f x = Inr y)"
  by (cases m) (simp_all add: ebind_def)

lemma ebind_Inl:
  "ebind m f = Inl e \<longleftrightarrow> m = Inl e \<or> (\<exists>x. m = Inr x \<and> f x = Inl e)"
  by (cases m) (simp_all add: ebind_def)

lemma ebind_simps [simp]:
  "ebind (Inl e) f = Inl e"
  "ebind (Inr x) f = f x"
  by (simp_all add: ebind_def)

lemma distinct_map_sort_key:
  "distinct (map f (sort_key g xs)) = distinct (map f xs)"
  by (simp add: distinct_map)

lemma partitions_from_pandas:
  "partitions (from_pandas df) = [sort_key fst df]"
  by (simp add: from_pandas_def Let_def sort_key_id_if_sorted)

lemma partitions_from_pandas_sorted:
  "sorted (map fst df) \<Longrightarrow> partitions (from_pandas df) = [df]"
  by (simp add: partitions_from_pandas sort_key_id_if_sorted)

lemma sorted_block_table:
  "sorted (map fst (block_table geo_df seg_1_df))"
  by (simp add: block_table_def)

lemma process_pop_cases:
  assumes "fips_of file = Inr FIPS" and "statelookup FIPS = Some ABBR"
    and "read_csv_seg w (state_1_path ABBR) = Some seg_1_df"
    and "read_csv_geo w (state_geo_path ABBR) = Some geo_df"
  shows "process_pop w file st =
           (if distinct (map fst (block_table geo_df seg_1_df))
            then Inr (pop_output FIPS,
                   st\<lparr>pq_pop := (pq_pop st)(pop_output FIPS
                          \<mapsto> from_pandas (block_table geo_df seg_1_df))\<rparr>)
            else Inl AssertionError)"
  using assms by (simp add: process_pop_def to_parquet_def Let_def)

lemma process_pop_Inr:
  assumes "process_pop w file st = Inr (output, st')"
  obtains FIPS ABBR seg_1_df geo_df where
    "fips_of file = Inr FIPS" and "statelookup FIPS = Some ABBR"
    and "read_csv_seg w (state_1_path ABBR) = Some seg_1_df"
    and "read_csv_geo w (state_geo_path ABBR) = Some geo_df"
    and "distinct (map fst (block_table geo_df seg_1_df))"
    and "output = pop_output FIPS"
    and "st' = st\<lparr>pq_pop := (pq_pop st)(output \<mapsto> from_pandas (block_table geo_df seg_1_df))\<rparr>"
proof (cases "fips_of file")
  case (Inl e)
  with assms show ?thesis by (simp add: process_pop_def)
next
  case (Inr FIPS)
  show ?thesis
  proof (cases "statelookup FIPS")
    case None
    with Inr assms show ?thesis by (simp add: process_pop_def)
  next
    case (Some ABBR)
    show ?thesis
    proof (cases "read_csv_seg w (state_1_path ABBR)")
      case None
      with Inr Some assms show ?thesis by (simp add: process_pop_def)
    next
      case seg: (Some seg_1_df)
      show ?thesis
      proof (cases "read_csv_geo w (state_geo_path ABBR)")
        case None
        with Inr Some seg assms show ?thesis by (simp add: process_pop_def)
      next
        case geo: (Some geo_df)
        from assms process_pop_cases [OF Inr Some seg geo, of st]
        have "distinct (map fst (block_table geo_df seg_1_df))"
          and "output = pop_output FIPS"
          and "st' = st\<lparr>pq_pop := (pq_pop st)(output
                 \<mapsto> from_pandas (block_table geo_df seg_1_df))\<rparr>"
          by (auto split: if_splits)
        with Inr Some seg geo that show ?thesis
          by blast
      qed
    qed
  qed
qed

lemma process_pop_Inl_state:
  assumes "process_pop w file st = Inl e"
  shows "process_pop w file st' = Inl e"
proof (cases "fips_of file")
  case (Inl e')
  with assms show ?thesis by (simp add: process_pop_def)
next
  case (Inr FIPS)
  show ?thesis
  proof (cases "statelookup FIPS")
    case None
    with Inr assms show ?thesis by (simp add: process_pop_def)
  next
    case (Some ABBR)
    show ?thesis
    proof (cases "read_csv_seg w (state_1_path ABBR)")
      case None
      with Inr Some assms show ?thesis by (simp add: process_pop_def)
    next
      case seg: (Some seg_1_df)
      show ?thesis
      proof (cases "read_csv_geo w (state_geo_path ABBR)")
        case None
        with Inr Some seg assms show ?thesis by (simp add: process_pop_def)
      next
        case geo: (Some geo_df)
        from assms show ?thesis
          unfolding process_pop_cases [OF Inr Some seg geo]
          by (simp split: if_splits)
      qed
    qed
  qed
qed

lemma process_pop_stored:
  assumes "process_pop w file st = Inr (output, st')"
  obtains FIPS ABBR seg_1_df geo_df where
    "fips_of file = Inr FIPS" and "statelookup FIPS = Some ABBR"
    and "read_csv_seg w (state_1_path ABBR) = Some seg_1_df"
    and "read_csv_geo w (state_geo_path ABBR) = Some geo_df"
    and "distinct (map fst (block_table geo_df seg_1_df))"
    and "output = pop_output FIPS"
    and "pq_pop st' output = Some (from_pandas (block_table geo_df seg_1_df))"
    and "map_option partitions (pq_pop st' output) = Some [block_table geo_df seg_1_df]"
proof -
  from assms obtain FIPS ABBR seg_1_df geo_df where
    a: "fips_of file = Inr FIPS" "statelookup FIPS = Some ABBR"
      "read_csv_seg w (state_1_path ABBR) = Some seg_1_df"
      "read_csv_geo w (state_geo_path ABBR) = Some geo_df"
      "distinct (map fst (block_table geo_df seg_1_df))"
      "output = pop_output FIPS"
    and st': "st' = st\<lparr>pq_pop := (pq_pop st)(output
                 \<mapsto> from_pandas (block_table geo_df seg_1_df))\<rparr>"
    by (rule process_pop_Inr)
  from st' have b: "pq_pop st' output = Some (from_pandas (block_table geo_df seg_1_df))"
    by simp
  then have "map_option partitions (pq_pop st' output) = Some [block_table geo_df seg_1_df]"
    by (simp add: partitions_from_pandas_sorted sorted_block_table)
  with a b that show ?thesis
    by blast
qed

lemma merge_left_Nil [simp]:
  "merge_left [] right = []"
  by (simp add: merge_left_def)

lemma merge_left_Cons:
  "merge_left (l # left) right =
     (case filter (\<lambda>r. s_LOGRECNO r = g_LOGRECNO l) right of
        [] \<Rightarrow> [(l, None)]
      | ms \<Rightarrow> map (\<lambda>r. (l, Some r)) ms) @ merge_left left right"
  by (simp add: merge_left_def)

lemma merge_left_provenance:
  assumes "(g, m) \<in> set (merge_left left right)"
  shows "g \<in> set left"
    and "m = None \<Longrightarrow> \<forall>r \<in> set right. s_LOGRECNO r \<noteq> g_LOGRECNO g"
    and "m = Some r \<Longrightarrow> r \<in> set right \<and> s_LOGRECNO r = g_LOGRECNO g"
proof -
  from assms obtain l where l: "l \<in> set left"
    and in_l: "(g, m) \<in> set (case filter (\<lambda>r. s_LOGRECNO r = g_LOGRECNO l) right of
                               [] \<Rightarrow> [(l, None)]
                             | ms \<Rightarrow> map (\<lambda>r. (l, Some r)) ms)"
    by (auto simp: merge_left_def)
  let ?ms = "filter (\<lambda>r. s_LOGRECNO r = g_LOGRECNO l) right"
  have gl: "g = l"
    using in_l by (cases ?ms) auto
  with l show "g \<in> set left"
    by simp
  show "\<forall>r \<in> set right. s_LOGRECNO r \<noteq> g_LOGRECNO g" if "m = None"
  proof (cases ?ms)
    case Nil
    then have "\<forall>r \<in> set right. \<not> s_LOGRECNO r = g_LOGRECNO l"
      by (simp add: filter_empty_conv)
    with gl show ?thesis by simp
  next
    case (Cons a as)
    with in_l that show ?thesis by auto
  qed
  show "r \<in> set right \<and> s_LOGRECNO r = g_LOGRECNO g" if "m = Some r"
  proof (cases ?ms)
    case Nil
    with in_l that show ?thesis by simp
  next
    case (Cons a as)
    with in_l that have "r \<in> set ?ms"
      by auto
    with gl show ?thesis by simp
  qed
qed

lemma find_filter_hd:
  "find P xs = (case filter P xs of [] \<Rightarrow> None | x # _ \<Rightarrow> Some x)"
  by (induction xs) simp_all

lemma merge_left_unique:
  assumes "distinct (map (\<lambda>(g, m). key g) (merge_left left right))"
  shows "merge_left left right =
           map (\<lambda>l. (l, find (\<lambda>r. s_LOGRECNO r = g_LOGRECNO l) right)) left"
  using assms
proof (induction left)
  case Nil
  then show ?case by simp
next
  case (Cons l left)
  let ?ms = "filter (\<lambda>r. s_LOGRECNO r = g_LOGRECNO l) right"
  let ?here = "case ?ms of [] \<Rightarrow> [(l, None)] | ms \<Rightarrow> map (\<lambda>r. (l, Some r)) ms"
  from Cons.prems have d: "distinct (map (\<lambda>(g, m). key g) ?here)"
    and rest: "distinct (map (\<lambda>(g, m). key g) (merge_left left right))"
    by (simp_all add: merge_left_Cons)
  have "?here = [(l, find (\<lambda>r. s_LOGRECNO r = g_LOGRECNO l) right)]"
  proof (cases ?ms)
    case Nil
    then show ?thesis by (simp add: find_filter_hd)
  next
    case (Cons a as)
    with d have "as = []"
      by (cases as) auto
    with Cons show ?thesis by (simp add: find_filter_hd)
  qed
  with Cons.IH [OF rest] show ?case
    by (simp add: merge_left_Cons)
qed

lemma block_rows_unique:
  assumes "distinct (map fst (block_rows geo_df seg_1_df))"
  shows "block_rows geo_df seg_1_df =
           map (\<lambda>g. (normalize_geoid (g_GEOID g),
                      map_option s_counts (find (\<lambda>r. s_LOGRECNO r = g_LOGRECNO g) seg_1_df)))
             (filter (\<lambda>g. g_SUMLEV g = 750) geo_df)"
proof -
  let ?kept = "filter (\<lambda>g. g_SUMLEV g = 750) geo_df"
  have "map fst (block_rows geo_df seg_1_df)
        = map (\<lambda>(g, m). normalize_geoid (g_GEOID g)) (merge_left ?kept seg_1_df)"
    by (simp add: block_rows_def case_prod_unfold)
  with assms have "distinct (map (\<lambda>(g, m). normalize_geoid (g_GEOID g))
                              (merge_left ?kept seg_1_df))"
    by simp
  then have "merge_left ?kept seg_1_df =
               map (\<lambda>l. (l, find (\<lambda>r. s_LOGRECNO r = g_LOGRECNO l) seg_1_df)) ?kept"
    by (rule merge_left_unique)
  then show ?thesis
    by (simp add: block_rows_def)
qed

lemma block_rows_sumlev:
  assumes "row \<in> set (block_rows geo_df seg_1_df)"
  shows "\<exists>g \<in> set geo_df. g_SUMLEV g = 750 \<and> fst row = normalize_geoid (g_GEOID g)"
proof -
  from assms obtain g m
    where gm: "(g, m) \<in> set (merge_left (filter (\<lambda>g. g_SUMLEV g = 750) geo_df) seg_1_df)"
      and row: "row = (normalize_geoid (g_GEOID g), map_option s_counts m)"
    by (auto simp: block_rows_def)
  from gm have "g \<in> set (filter (\<lambda>g. g_SUMLEV g = 750) geo_df)"
    by (rule merge_left_provenance)
  with row show ?thesis
    by auto
qed

lemma block_table_filtered:
  "filter (\<lambda>g. g_SUMLEV g = 750) geo_df = filter (\<lambda>g. g_SUMLEV g = 750) geo_df'
   \<Longrightarrow> block_table geo_df seg_1_df = block_table geo_df' seg_1_df"
  by (simp add: block_table_def block_rows_def)

lemma process_pop_cong:
  assumes seg: "read_csv_seg w' = read_csv_seg w"
    and geo: "\<And>p. map_option (filter (\<lambda>g. g_SUMLEV g = 750)) (read_csv_geo w' p)
                  = map_option (filter (\<lambda>g. g_SUMLEV g = 750)) (read_csv_geo w p)"
  shows "process_pop w' file st = process_pop w file st"
proof (cases "fips_of file")
  case (Inl e)
  then show ?thesis by (simp add: process_pop_def)
next
  case (Inr FIPS)
  show ?thesis
  proof (cases "statelookup FIPS")
    case None
    with Inr show ?thesis by (simp add: process_pop_def)
  next
    case (Some ABBR)
    show ?thesis
    proof (cases "read_csv_seg w (state_1_path ABBR)")
      case None
      with Inr Some seg show ?thesis by (simp add: process_pop_def)
    next
      case s: (Some seg_1_df)
      then have s': "read_csv_seg w' (state_1_path ABBR) = Some seg_1_df"
        by (simp add: seg)
      show ?thesis
      proof (cases "read_csv_geo w (state_geo_path ABBR)")
        case None
        with geo [of "state_geo_path ABBR"]
        have "read_csv_geo w' (state_geo_path ABBR) = None"
          by simp
        with None Inr Some s s' show ?thesis by (simp add: process_pop_def)
      next
        case g: (Some geo_df)
        with geo [of "state_geo_path ABBR"] obtain geo_df'
          where g': "read_csv_geo w' (state_geo_path ABBR) = Some geo_df'"
            and f: "filter (\<lambda>g. g_SUMLEV g = 750) geo_df' = filter (\<lambda>g. g_SUMLEV g = 750) geo_df"
          by (cases "read_csv_geo w' (state_geo_path ABBR)") auto
        show ?thesis
          unfolding process_pop_cases [OF Inr Some s g]
            process_pop_cases [OF Inr Some s' g'] block_table_filtered [OF f] ..
      qed
    qed
  qed
qed

lemma read_parquet_cong:
  "gather_statistics w' = gather_statistics w \<Longrightarrow> read_parquet w' = read_parquet w"
  by (simp add: fun_eq_iff read_parquet_def cong: option.case_cong)

lemma astype_read_csv_geo:
  "astype (w\<lparr>read_csv_geo := x\<rparr>) dtypes t = astype w dtypes t"
  by (simp add: astype_def cong: option.case_cong)

lemma to_numeric_read_csv_geo:
  "to_numeric (w\<lparr>read_csv_geo := x\<rparr>) label g = to_numeric w label g"
  by (simp add: to_numeric_def cong: option.case_cong if_cong)

lemma geo_table_read_csv_geo:
  "geo_table (w\<lparr>read_csv_geo := x\<rparr>) t = geo_table w t"
  by (simp add: geo_table_def astype_read_csv_geo to_numeric_read_csv_geo)

lemma process_geo_read_csv_geo:
  "process_geo (w\<lparr>read_csv_geo := x\<rparr>) = process_geo w"
  by (simp add: fun_eq_iff process_geo_def geo_table_read_csv_geo cong: option.case_cong)

lemma main_cong:
  assumes "glob_zip w' = glob_zip w" and "process_geo w' = process_geo w"
    and "process_pop w' = process_pop w" and "gather_statistics w' = gather_statistics w"
  shows "main w' st = main w st"
proof -
  have r1: "read_parquet w' = (read_parquet w :: string \<Rightarrow> (string \<rightharpoonup> pop_row ddf) \<Rightarrow> _)"
    using assms(4) by (rule read_parquet_cong)
  have r2: "read_parquet w' = (read_parquet w :: string \<Rightarrow> (string \<rightharpoonup> 'a geo_row ddf) \<Rightarrow> _)"
    using assms(4) by (rule read_parquet_cong)
  show ?thesis
    unfolding main_def main_concat_def assms(1-3) r1 r2 ..
qed

subsection \<open>Facts about the driver\<close>

lemma main_concat_Inr:
  assumes "main_concat w st = Inr (pop, geo, st2)"
  obtains pop_inputs geo_files st1 pop_files pop_parts geo_parts where
    "select_pops (glob_zip w) = Inr pop_inputs"
    and "glob_zip w \<noteq> []" and "pop_inputs \<noteq> []"
    and "compute (map (process_geo w) (glob_zip w)) st = Inr (geo_files, st1)"
    and "compute (map (process_pop w) pop_inputs) st1 = Inr (pop_files, st2)"
    and "read_all (\<lambda>f. read_parquet w f (pq_pop st2)) (sort pop_files) = Inr pop_parts"
    and "dd_concat pop_parts = Inr pop"
    and "read_all (\<lambda>f. read_parquet w f (pq_geo st2)) (sort geo_files) = Inr geo_parts"
    and "dd_concat geo_parts = Inr geo"
  using assms
  by (simp add: main_concat_def Let_def ebind_Inr split: if_splits) blast

lemma main_after_concat:
  assumes "main_concat w st = Inr (pop, geo, st2)"
  shows "main w st =
           (if known_divisions pop \<and> known_divisions geo
               \<and> gather_statistics w OUT_POP \<and> gather_statistics w OUT_GEO
            then Inr (st2\<lparr>pq_pop := (pq_pop st2)(OUT_POP \<mapsto> pop),
                          pq_geo := (pq_geo st2)(OUT_GEO \<mapsto> geo)\<rparr>)
            else Inl AssertionError)"
  unfolding main_def assms ebind_simps prod.case Let_def
  by (simp add: read_parquet_def to_parquet_def known_divisions_def)

lemma main_Inr:
  assumes "main w st = Inr st'"
  obtains pop geo st2 where "main_concat w st = Inr (pop, geo, st2)"
    and "known_divisions pop" and "known_divisions geo"
    and "gather_statistics w OUT_POP" and "gather_statistics w OUT_GEO"
    and "st' = st2\<lparr>pq_pop := (pq_pop st2)(OUT_POP \<mapsto> pop),
                     pq_geo := (pq_geo st2)(OUT_GEO \<mapsto> geo)\<rparr>"
proof (cases "main_concat w st")
  case (Inl e)
  with assms show ?thesis by (simp add: main_def)
next
  case (Inr r)
  obtain pop geo st2 where r: "r = (pop, geo, st2)"
    by (cases r)
  from assms show ?thesis
    unfolding main_after_concat [OF Inr [unfolded r]]
    using that [OF Inr [unfolded r]] by (simp split: if_splits)
qed

lemma compute_writes:
  assumes task: "\<And>f s. task f s =
              (case res f of None \<Rightarrow> Inl (err f) | Some (p, d) \<Rightarrow> Inr (p, put p d s))"
    and run: "compute (map task files) st = Inr (paths, st')"
  shows "\<exists>rs. map res files = map Some rs \<and> paths = map fst rs
              \<and> st' = fold (\<lambda>(p, d). put p d) rs st"
  using run
proof (induction files arbitrary: st paths st')
  case Nil
  then show ?case by simp
next
  case (Cons f files)
  from Cons.prems obtain p s where t: "task f st = Inr (p, s)"
    and rest: "ebind (compute (map task files) s) (\<lambda>(xs, s). Inr (p # xs, s)) = Inr (paths, st')"
    by (auto simp: ebind_Inr)
  from t task [of f st] obtain d where r: "res f = Some (p, d)" and s: "s = put p d st"
    by (cases "res f") auto
  from rest s obtain ps where c: "compute (map task files) (put p d st) = Inr (ps, st')"
    and paths: "paths = p # ps"
    by (auto simp: ebind_Inr)
  from Cons.IH [OF c] obtain rs where "map res files = map Some rs" "ps = map fst rs"
      "st' = fold (\<lambda>(p, d). put p d) rs (put p d st)"
    by blast
  with r paths show ?case
    by (intro exI [of _ "(p, d) # rs"]) simp
qed

lemma compute_fails:
  assumes "f \<in> set files" and "\<And>s. \<exists>e. task f s = Inl e"
  shows "\<exists>e. compute (map task files) st = Inl e"
  using assms(1)
proof (induction files arbitrary: st)
  case Nil
  then show ?case by simp
next
  case (Cons g files)
  show ?case
  proof (cases "task g st")
    case (Inl e)
    then show ?thesis by simp
  next
    case (Inr r)
    obtain p s where r: "r = (p, s)" by (cases r)
    show ?thesis
    proof (cases "g = f")
      case True
      with assms(2) [of st] Inr show ?thesis by simp
    next
      case False
      with Cons.prems have "f \<in> set files" by simp
      from Cons.IH [OF this, of s] obtain e where "compute (map task files) s = Inl e" ..
      with Inr r show ?thesis by simp
    qed
  qed
qed

lemma read_all_Inr:
  "read_all rd ps = Inr ds \<Longrightarrow> list_all2 (\<lambda>p d. rd p = Inr d) ps ds"
proof (induction ps arbitrary: ds)
  case Nil
  then show ?case by simp
next
  case (Cons p ps)
  then show ?case
    by (auto simp: ebind_Inr)
qed

lemma process_geo_cases:
  assumes "read_file w file = Some t" and "geo_table w t = Inr gdf" and "fips_of file = Inr FIPS"
  shows "process_geo w file st =
           Inr (geo_output FIPS,
                st\<lparr>pq_geo := (pq_geo st)(geo_output FIPS \<mapsto> from_pandas (named_rows gdf))\<rparr>)"
  using assms by (simp add: process_geo_def to_parquet_def Let_def)

lemma process_geo_Inr:
  assumes "process_geo w file st = Inr (out, st')"
  obtains t gdf FIPS where "read_file w file = Some t" and "geo_table w t = Inr gdf"
    and "fips_of file = Inr FIPS" and "out = geo_output FIPS"
    and "st' = st\<lparr>pq_geo := (pq_geo st)(out \<mapsto> from_pandas (named_rows gdf))\<rparr>"
  using assms
  by (auto simp: process_geo_def to_parquet_def Let_def ebind_Inr split: option.splits)

lemma process_geo_Inl_state:
  assumes "process_geo w file st = Inl e"
  shows "process_geo w file st' = Inl e"
  using assms
  by (auto simp: process_geo_def Let_def ebind_Inl split: option.splits)

lemma process_pop_written:
  "process_pop w file st =
     (case written_pop w file of
        None \<Rightarrow> Inl (raised (process_pop w file no_files))
      | Some (p, d) \<Rightarrow> Inr (p, st\<lparr>pq_pop := (pq_pop st)(p \<mapsto> d)\<rparr>))"
proof (cases "process_pop w file no_files")
  case (Inl e)
  then have "process_pop w file st = Inl e"
    by (rule process_pop_Inl_state)
  with Inl show ?thesis
    by (simp add: written_pop_def raised_def)
next
  case (Inr r)
  obtain out st0 where r: "r = (out, st0)"
    by (cases r)
  from Inr [unfolded r] obtain FIPS ABBR seg_1_df geo_df where
    a: "fips_of file = Inr FIPS" "statelookup FIPS = Some ABBR"
       "read_csv_seg w (state_1_path ABBR) = Some seg_1_df"
       "read_csv_geo w (state_geo_path ABBR) = Some geo_df"
    and d: "distinct (map fst (block_table geo_df seg_1_df))"
    and out: "out = pop_output FIPS"
    and st0: "pq_pop st0 out = Some (from_pandas (block_table geo_df seg_1_df))"
    by (rule process_pop_stored)
  from Inr r st0 have "written_pop w file = Some (out, from_pandas (block_table geo_df seg_1_df))"
    by (simp add: written_pop_def)
  then show ?thesis
    using d out by (simp add: process_pop_cases [OF a])
qed

lemma process_geo_written:
  "process_geo w file st =
     (case written_geo w file of
        None \<Rightarrow> Inl (raised (process_geo w file no_files))
      | Some (p, d) \<Rightarrow> Inr (p, st\<lparr>pq_geo := (pq_geo st)(p \<mapsto> d)\<rparr>))"
proof (cases "process_geo w file no_files")
  case (Inl e)
  then have "process_geo w file st = Inl e"
    by (rule process_geo_Inl_state)
  with Inl show ?thesis
    by (simp add: written_geo_def raised_def)
next
  case (Inr r)
  obtain out st0 where r: "r = (out, st0)"
    by (cases r)
  from Inr [unfolded r] obtain t gdf FIPS where
    a: "read_file w file = Some t" "geo_table w t = Inr gdf" "fips_of file = Inr FIPS"
    and out: "out = geo_output FIPS"
    and st0: "st0 = no_files\<lparr>pq_geo := (pq_geo no_files)(out \<mapsto> from_pandas (named_rows gdf))\<rparr>"
    by (rule process_geo_Inr)
  from Inr r st0 have "written_geo w file = Some (out, from_pandas (named_rows gdf))"
    by (simp add: written_geo_def)
  then show ?thesis
    using out by (simp add: process_geo_cases [OF a])
qed

lemma fold_put_geo:
  "pq_geo (fold (\<lambda>(p, d) s. s\<lparr>pq_geo := (pq_geo s)(p \<mapsto> d)\<rparr>) rs st) = pq_geo st ++ map_of (rev rs)"
  "pq_pop (fold (\<lambda>(p, d) s. s\<lparr>pq_geo := (pq_geo s)(p \<mapsto> d)\<rparr>) rs st) = pq_pop st"
  by (induction rs arbitrary: st) (auto simp: map_add_def fun_eq_iff split: option.splits)

lemma fold_put_pop:
  "pq_pop (fold (\<lambda>(p, d) s. s\<lparr>pq_pop := (pq_pop s)(p \<mapsto> d)\<rparr>) rs st) = pq_pop st ++ map_of (rev rs)"
  "pq_geo (fold (\<lambda>(p, d) s. s\<lparr>pq_pop := (pq_pop s)(p \<mapsto> d)\<rparr>) rs st) = pq_geo st"
  by (induction rs arbitrary: st) (auto simp: map_add_def fun_eq_iff split: option.splits)

lemma compute_geo:
  assumes "compute (map (process_geo w) files) st = Inr (paths, st')"
  obtains rs where "map (written_geo w) files = map Some rs" and "paths = map fst rs"
    and "pq_geo st' = pq_geo st ++ map_of (rev rs)" and "pq_pop st' = pq_pop st"
proof -
  from compute_writes [where task = "process_geo w" and res = "written_geo w"
       and err = "\<lambda>f. raised (process_geo w f no_files)"
       and put = "\<lambda>p d s. s\<lparr>pq_geo := (pq_geo s)(p \<mapsto> d)\<rparr>",
       OF process_geo_written assms]
  obtain rs where "map (written_geo w) files = map Some rs" "paths = map fst rs"
    "st' = fold (\<lambda>(p, d) s. s\<lparr>pq_geo := (pq_geo s)(p \<mapsto> d)\<rparr>) rs st"
    by blast
  then show ?thesis
    using that by (simp add: fold_put_geo)
qed

lemma compute_pop:
  assumes "compute (map (process_pop w) files) st = Inr (paths, st')"
  obtains rs where "map (written_pop w) files = map Some rs" and "paths = map fst rs"
    and "pq_pop st' = pq_pop st ++ map_of (rev rs)" and "pq_geo st' = pq_geo st"
proof -
  from compute_writes [where task = "process_pop w" and res = "written_pop w"
       and err = "\<lambda>f. raised (process_pop w f no_files)"
       and put = "\<lambda>p d s. s\<lparr>pq_pop := (pq_pop s)(p \<mapsto> d)\<rparr>",
       OF process_pop_written assms]
  obtain rs where "map (written_pop w) files = map Some rs" "paths = map fst rs"
    "st' = fold (\<lambda>(p, d) s. s\<lparr>pq_pop := (pq_pop s)(p \<mapsto> d)\<rparr>) rs st"
    by blast
  then show ?thesis
    using that by (simp add: fold_put_pop)
qed

lemma sorted_between:
  assumes "sorted xs" and "k \<in> set xs"
  shows "hd xs \<le> k \<and> k \<le> last xs"
  using assms
proof (induction xs)
  case Nil
  then show ?case by simp
next
  case (Cons x xs)
  show ?case
  proof (cases "xs = []")
    case True
    with Cons.prems show ?thesis by simp
  next
    case False
    with Cons show ?thesis by auto
  qed
qed

lemma truthful_from_pandas:
  "truthful (from_pandas df)"
proof (cases "df = []")
  case True
  then show ?thesis by (simp add: truthful_def from_pandas_def)
next
  case False
  let ?data = "sort_key fst df"
  have ne: "?data \<noteq> []"
    using False by (metis length_sort length_0_conv)
  have s: "sorted (map fst ?data)"
    by simp
  have "hd (map fst ?data) \<le> k \<and> k \<le> last (map fst ?data)" if "k \<in> set (map fst ?data)" for k
    using s that by (rule sorted_between)
  moreover have "hd (map fst ?data) \<le> last (map fst ?data)"
  proof -
    from ne have "hd (map fst ?data) \<in> set (map fst ?data)"
      by (intro hd_in_set) simp
    from sorted_between [OF s this] show ?thesis
      by simp
  qed
  ultimately have "bounded [?data] [fst (hd ?data), fst (last ?data)]"
    using ne by (simp add: hd_map last_map)
  moreover have "(if sorted (map fst df) then df else ?data) = ?data"
    by (simp add: sort_key_id_if_sorted)
  ultimately show ?thesis
    using False by (simp add: truthful_def from_pandas_def Let_def del: bounded.simps)
qed

lemma bounded_length:
  "bounded ps ds \<Longrightarrow> ps \<noteq> [] \<and> length ds = Suc (length ps)"
  by (induction ps ds rule: bounded.induct) simp_all

lemma bounded_lower:
  "bounded ps ds \<Longrightarrow> p \<in> set ps \<Longrightarrow> k \<in> set (map fst p) \<Longrightarrow> hd ds \<le> k"
  by (induction ps ds rule: bounded.induct) (auto intro: order_trans)

lemma bounded_hd_le_last:
  "bounded ps ds \<Longrightarrow> hd ds \<le> last ds"
  by (induction ps ds rule: bounded.induct) (auto intro: order_trans)

lemma bounded_increasing:
  "bounded ps ds \<Longrightarrow> key_ranges_increasing ps"
proof (induction ps ds rule: bounded.induct)
  case (1 p lo hi)
  then show ?case by (simp add: key_ranges_increasing_def)
next
  case (2 p q ps lo hi ds)
  then have b: "bounded (q # ps) (hi # ds)" and k: "\<forall>k \<in> set (map fst p). k < hi"
    by simp_all
  have "k < k'" if "k \<in> set (map fst p)" "r \<in> set (q # ps)" "k' \<in> set (map fst r)" for k k' r
  proof -
    from bounded_lower [OF b that(2,3)] have "hi \<le> k'" by simp
    with k that(1) show ?thesis by (meson less_le_trans)
  qed
  with 2 b show ?case
    unfolding key_ranges_increasing_def by (simp del: set_map)
qed simp_all

lemma bounded_append:
  "bounded ps ds \<Longrightarrow> bounded qs es \<Longrightarrow> last ds < hd es \<Longrightarrow> bounded (ps @ qs) (butlast ds @ es)"
proof (induction ps ds rule: bounded.induct)
  case (1 p lo hi)
  from \<open>bounded qs es\<close> obtain q qs' e0 e1 es' where "qs = q # qs'" "es = e0 # e1 # es'"
    by (cases "(qs, es)" rule: bounded.cases) auto
  with 1 show ?case
    by (auto intro: order_trans less_imp_le le_less_trans)
next
  case (2 p q ps lo hi ds)
  then have b: "bounded (q # ps) (hi # ds)"
    by simp
  then have "ds \<noteq> []"
    by (cases ds) auto
  with 2 show ?case
    by simp
qed simp_all

lemma hd_stack_divisions:
  "2 \<le> length d \<Longrightarrow> hd (stack_divisions (d # ds)) = hd d"
  by (cases ds; cases d rule: list.exhaust [case_names Nil Cons]) (auto simp: hd_append butlast_conv_take)

lemma stacked_bounded:
  assumes "dfs \<noteq> []"
    and "\<forall>d \<in> set dfs. \<exists>ds. divisions d = Some ds \<and> bounded (partitions d) ds"
    and "divisions_ordered (map (\<lambda>d. the (divisions d)) dfs)"
  shows "bounded (concat (map partitions dfs)) (stack_divisions (map (\<lambda>d. the (divisions d)) dfs))"
  using assms
proof (induction dfs rule: induct_list012)
  case 1
  then show ?case by simp
next
  case (2 d)
  then show ?case by auto
next
  case (3 d1 d2 dfs)
  from "3.prems" obtain ds1 ds2 where
    d1: "divisions d1 = Some ds1" "bounded (partitions d1) ds1"
    and d2: "divisions d2 = Some ds2" "bounded (partitions d2) ds2"
    by auto
  from "3.prems" d1 d2 have lt: "last ds1 < hd ds2"
    and ord: "divisions_ordered (map (\<lambda>d. the (divisions d)) (d2 # dfs))"
    by simp_all
  from "3.prems" have "\<forall>d \<in> set (d2 # dfs). \<exists>ds. divisions d = Some ds \<and> bounded (partitions d) ds"
    by simp
  with "3.IH"(2) ord
  have rest: "bounded (concat (map partitions (d2 # dfs)))
                (stack_divisions (map (\<lambda>d. the (divisions d)) (d2 # dfs)))"
    by blast
  from d2 have "2 \<le> length ds2"
    using bounded_length [of "partitions d2" ds2] by (cases "partitions d2") auto
  then have "hd (stack_divisions (map (\<lambda>d. the (divisions d)) (d2 # dfs))) = hd ds2"
    using d2 by (simp add: hd_stack_divisions)
  with lt have "last ds1 < hd (stack_divisions (map (\<lambda>d. the (divisions d)) (d2 # dfs)))"
    by simp
  from bounded_append [OF d1(2) rest this] d1 show ?case
    by simp
qed

lemma dd_concat_Inr:
  assumes "dd_concat dfs = Inr d"
  shows "dfs \<noteq> []" and "partitions d = concat (map partitions dfs)"
    and "known_divisions d \<longleftrightarrow>
           (\<forall>x \<in> set dfs. known_divisions x) \<and> divisions_ordered (map (\<lambda>d. the (divisions d)) dfs)"
    and "known_divisions d \<Longrightarrow> divisions d = Some (stack_divisions (map (\<lambda>d. the (divisions d)) dfs))"
  using assms by (auto simp: dd_concat_def known_divisions_def split: if_splits)

lemma dd_concat_increasing:
  assumes "dd_concat dfs = Inr d" and "known_divisions d" and "\<forall>x \<in> set dfs. truthful x"
  shows "key_ranges_increasing (partitions d)"
proof -
  from assms(1,2) have k: "\<forall>x \<in> set dfs. known_divisions x"
    and o: "divisions_ordered (map (\<lambda>d. the (divisions d)) dfs)"
    by (simp_all add: dd_concat_Inr(3))
  from k assms(3) have "\<forall>d \<in> set dfs. \<exists>ds. divisions d = Some ds \<and> bounded (partitions d) ds"
    by (fastforce simp: known_divisions_def truthful_def split: option.splits)
  with dd_concat_Inr(1) [OF assms(1)] o
  have "bounded (concat (map partitions dfs)) (stack_divisions (map (\<lambda>d. the (divisions d)) dfs))"
    by (intro stacked_bounded)
  then show ?thesis
    unfolding dd_concat_Inr(2) [OF assms(1)] by (rule bounded_increasing)
qed

lemma ordered_distinct_paths:
  assumes "list_all2 (\<lambda>p d. rd p = Inr d) ps ds" and "sorted ps"
    and "\<forall>d \<in> set ds. known_divisions d \<and> truthful d"
    and "divisions_ordered (map (\<lambda>d. the (divisions d)) ds)"
  shows "distinct ps"
  using assms
proof (induction ps arbitrary: ds rule: induct_list012)
  case 1
  then show ?case by simp
next
  case (2 p)
  then show ?case by simp
next
  case (3 p1 p2 ps)
  from "3.prems"(1) obtain d1 d2 ds' where ds: "ds = d1 # d2 # ds'"
    and r1: "rd p1 = Inr d1" and r2: "rd p2 = Inr d2"
    and rest: "list_all2 (\<lambda>p d. rd p = Inr d) (p2 # ps) (d2 # ds')"
    by (auto simp: list_all2_Cons1)
  from "3.prems"(3,4) ds have lt: "last (the (divisions d1)) < hd (the (divisions d2))"
    and ord: "divisions_ordered (map (\<lambda>d. the (divisions d)) (d2 # ds'))"
    and k: "\<forall>d \<in> set (d2 # ds'). known_divisions d \<and> truthful d"
    and k1: "known_divisions d1" "truthful d1"
    by simp_all
  from "3.prems"(2) have s: "sorted (p2 # ps)" and le: "p1 \<le> p2"
    by simp_all
  from "3.IH"(2) [OF rest s k ord] have dist: "distinct (p2 # ps)" .
  have "p1 \<noteq> p2"
  proof
    assume "p1 = p2"
    with r1 r2 have "d1 = d2" by simp
    with lt have "last (the (divisions d1)) < hd (the (divisions d1))" by simp
    moreover from k1 have "hd (the (divisions d1)) \<le> last (the (divisions d1))"
      by (auto simp: known_divisions_def truthful_def dest: bounded_hd_le_last)
    ultimately show False by simp
  qed
  with le have "p1 < p2" by simp
  moreover from s have "\<forall>q \<in> set ps. p2 \<le> q" by simp
  ultimately have "p1 \<notin> set (p2 # ps)"
    by (auto dest: less_le_trans)
  with dist show ?case by simp
qed

lemma map_fst_sort_key:
  "map fst (sort_key fst xs) = sort (map fst xs)"
proof (induction xs)
  case Nil
  then show ?case by simp
next
  case (Cons x xs)
  have "map fst (insort_key fst x ys) = insort (fst x) (map fst ys)" for ys :: "('a \<times> 'b) list"
    by (induction ys) simp_all
  with Cons show ?case by simp
qed

lemma read_parquet_Inr:
  assumes "read_parquet w p store = Inr d"
  obtains d0 where "store p = Some d0" and "partitions d = partitions d0"
    and "divisions d = (if gather_statistics w p then divisions d0 else None)"
  using assms by (auto simp: read_parquet_def split: option.splits)

lemma read_parquet_truthful:
  assumes "read_parquet w p store = Inr d" and "store p = Some d0" and "truthful d0"
  shows "truthful d"
  using assms by (auto simp: read_parquet_def truthful_def split: option.splits if_splits)

lemma merged_units:
  fixes rs :: "(string \<times> 'a ddf) list"
  assumes store: "store = base ++ map_of (rev rs)"
    and rd: "read_all (\<lambda>f. read_parquet w f store) (sort (map fst rs)) = Inr parts"
    and cat: "dd_concat parts = Inr d" and known: "known_divisions d"
    and tr: "\<forall>r \<in> set rs. truthful (snd r)"
  shows "distinct (map fst rs)" and "key_ranges_increasing (partitions d)"
    and "partitions d = concat (map (\<lambda>r. partitions (snd r)) (sort_key fst rs))"
proof -
  let ?paths = "sort (map fst rs)"
  from rd have la: "list_all2 (\<lambda>p x. read_parquet w p store = Inr x) ?paths parts"
    by (rule read_all_Inr)
  have stored: "\<exists>d0. store p = Some d0 \<and> (p, d0) \<in> set rs" if "p \<in> set ?paths" for p
  proof -
    from that have "p \<in> fst ` set (rev rs)"
      by simp
    then obtain d0 where "map_of (rev rs) p = Some d0"
      by (metis weak_map_of_SomeI map_of_eq_None_iff not_Some_eq)
    moreover from this have "(p, d0) \<in> set rs"
      by (auto dest: map_of_SomeD)
    ultimately show ?thesis
      by (auto simp: store)
  qed
  have part: "truthful x" if "x \<in> set parts" for x
  proof -
    from that obtain i where i: "i < length parts" and x: "x = parts ! i"
      by (auto simp: in_set_conv_nth)
    from la have len: "length ?paths = length parts"
      by (rule list_all2_lengthD)
    from la i x have r: "read_parquet w (?paths ! i) store = Inr x"
      by (simp add: list_all2_conv_all_nth)
    from i len have p: "?paths ! i \<in> set ?paths"
      by (intro nth_mem) simp
    define p where "p = ?paths ! i"
    note p = p [folded p_def] and r = r [folded p_def]
    from stored [OF p] obtain d0 where d0: "store p = Some d0" and "(p, d0) \<in> set rs"
      by blast
    with tr have "truthful d0"
      by force
    with r d0 show ?thesis
      by (rule read_parquet_truthful)
  qed
  from cat known have k: "\<forall>x \<in> set parts. known_divisions x"
    and o: "divisions_ordered (map (\<lambda>d. the (divisions d)) parts)"
    by (simp_all add: dd_concat_Inr(3))
  from la have "distinct ?paths"
    by (rule ordered_distinct_paths) (use k o part in auto)
  then show dist: "distinct (map fst rs)"
    by simp
  from cat known show "key_ranges_increasing (partitions d)"
    by (rule dd_concat_increasing) (use part in blast)
  have look: "store (fst r) = Some (snd r)" if "r \<in> set rs" for r
  proof -
    from dist have "distinct (map fst (rev rs))"
      by (simp add: rev_map [symmetric])
    moreover from that have "(fst r, snd r) \<in> set (rev rs)"
      by simp
    ultimately have "map_of (rev rs) (fst r) = Some (snd r)"
      by (rule map_of_is_SomeI)
    then show ?thesis
      by (simp add: store)
  qed
  have paths: "?paths = map fst (sort_key fst rs)"
    by (simp add: map_fst_sort_key)
  from la have "list_all2 (\<lambda>r x. read_parquet w (fst r) store = Inr x) (sort_key fst rs) parts"
    unfolding paths by (simp add: list_all2_map1)
  then have la2: "list_all2 (\<lambda>r x. read_parquet w (fst r) store = Inr x) (sort_key fst rs) parts" .
  then have len: "length (sort_key fst rs) = length parts"
    by (rule list_all2_lengthD)
  have "partitions (parts ! i) = partitions (snd (sort_key fst rs ! i))"
    if "i < length parts" for i
  proof -
    from la2 that have "read_parquet w (fst (sort_key fst rs ! i)) store = Inr (parts ! i)"
      by (simp add: list_all2_conv_all_nth)
    moreover from that len have "sort_key fst rs ! i \<in> set (sort_key fst rs)"
      by (intro nth_mem) simp
    then have "store (fst (sort_key fst rs ! i)) = Some (snd (sort_key fst rs ! i))"
      by (intro look) simp
    ultimately show ?thesis
      by (auto elim!: read_parquet_Inr)
  qed
  then have "map partitions parts = map (\<lambda>r. partitions (snd r)) (sort_key fst rs)"
    using len by (intro nth_equalityI) simp_all
  then show "partitions d = concat (map (\<lambda>r. partitions (snd r)) (sort_key fst rs))"
    by (simp add: dd_concat_Inr(2) [OF cat])
qed

lemma written_pop_truthful:
  assumes "written_pop w file = Some (p, d)"
  shows "truthful d"
proof -
  from assms obtain st where run: "process_pop w file no_files = Inr (p, st)"
    and d: "pq_pop st p = Some d"
    by (auto simp: written_pop_def split: sum.splits)
  from run obtain geo_df seg_1_df
    where "pq_pop st p = Some (from_pandas (block_table geo_df seg_1_df))"
    by (rule process_pop_stored)
  with d have "d = from_pandas (block_table geo_df seg_1_df)"
    by simp
  then show ?thesis
    by (simp only: truthful_from_pandas)
qed

lemma written_geo_truthful:
  assumes "written_geo w file = Some (p, d)"
  shows "truthful d"
proof -
  from assms obtain st where run: "process_geo w file no_files = Inr (p, st)"
    and d: "pq_geo st p = Some d"
    by (auto simp: written_geo_def split: sum.splits)
  from run obtain gdf
    where "st = no_files\<lparr>pq_geo := (pq_geo no_files)(p \<mapsto> from_pandas (named_rows gdf))\<rparr>"
    by (rule process_geo_Inr)
  with d have "d = from_pandas (named_rows gdf)"
    by simp
  then show ?thesis
    by (simp only: truthful_from_pandas)
qed

lemma main_concat_merged:
  assumes "main_concat w st = Inr (pop, geo, st2)"
  obtains pop_inputs prs grs where
    "select_pops (glob_zip w) = Inr pop_inputs"
    and "map (written_pop w) pop_inputs = map Some prs"
    and "map (written_geo w) (glob_zip w) = map Some grs"
    and "pq_pop st2 = pq_pop st ++ map_of (rev prs)"
    and "pq_geo st2 = pq_geo st ++ map_of (rev grs)"
    and "known_divisions pop \<longrightarrow>
           distinct (map fst prs) \<and> key_ranges_increasing (partitions pop)
           \<and> partitions pop = concat (map (\<lambda>r. partitions (snd r)) (sort_key fst prs))"
    and "known_divisions geo \<longrightarrow>
           distinct (map fst grs) \<and> key_ranges_increasing (partitions geo)
           \<and> partitions geo = concat (map (\<lambda>r. partitions (snd r)) (sort_key fst grs))"
proof -
  from assms obtain pop_inputs geo_files st1 pop_files pop_parts geo_parts where
    sel: "select_pops (glob_zip w) = Inr pop_inputs"
    and cg: "compute (map (process_geo w) (glob_zip w)) st = Inr (geo_files, st1)"
    and cp: "compute (map (process_pop w) pop_inputs) st1 = Inr (pop_files, st2)"
    and rp: "read_all (\<lambda>f. read_parquet w f (pq_pop st2)) (sort pop_files) = Inr pop_parts"
    and dp: "dd_concat pop_parts = Inr pop"
    and rg: "read_all (\<lambda>f. read_parquet w f (pq_geo st2)) (sort geo_files) = Inr geo_parts"
    and dg: "dd_concat geo_parts = Inr geo"
    by (rule main_concat_Inr)
  from cg obtain grs where grs: "map (written_geo w) (glob_zip w) = map Some grs"
    and gf: "geo_files = map fst grs"
    and g1: "pq_geo st1 = pq_geo st ++ map_of (rev grs)" and p1: "pq_pop st1 = pq_pop st"
    by (rule compute_geo)
  from cp obtain prs where prs: "map (written_pop w) pop_inputs = map Some prs"
    and pf: "pop_files = map fst prs"
    and p2: "pq_pop st2 = pq_pop st1 ++ map_of (rev prs)" and g2: "pq_geo st2 = pq_geo st1"
    by (rule compute_pop)
  have tp: "\<forall>r \<in> set prs. truthful (snd r)"
  proof
    fix r assume "r \<in> set prs"
    then have "Some r \<in> set (map (written_pop w) pop_inputs)"
      by (simp add: prs)
    then obtain f where "written_pop w f = Some (fst r, snd r)"
      by auto
    then show "truthful (snd r)"
      by (rule written_pop_truthful)
  qed
  have tg: "\<forall>r \<in> set grs. truthful (snd r)"
  proof
    fix r assume "r \<in> set grs"
    then have "Some r \<in> set (map (written_geo w) (glob_zip w))"
      by (simp add: grs)
    then obtain f where "written_geo w f = Some (fst r, snd r)"
      by auto
    then show "truthful (snd r)"
      by (rule written_geo_truthful)
  qed
  note mp = merged_units [OF p2 rp [unfolded pf] dp _ tp]
  note mg = merged_units [OF g1 [folded g2] rg [unfolded gf] dg _ tg]
  from mp have "known_divisions pop \<longrightarrow>
           distinct (map fst prs) \<and> key_ranges_increasing (partitions pop)
           \<and> partitions pop = concat (map (\<lambda>r. partitions (snd r)) (sort_key fst prs))"
    by blast
  moreover from mg have "known_divisions geo \<longrightarrow>
           distinct (map fst grs) \<and> key_ranges_increasing (partitions geo)
           \<and> partitions geo = concat (map (\<lambda>r. partitions (snd r)) (sort_key fst grs))"
    by blast
  ultimately show ?thesis
    using sel prs grs p2 [unfolded p1] g1 [folded g2] by (intro that)
qed

lemma select_pops_Inr:
  assumes "select_pops files = Inr ps"
  shows "ps = filter (\<lambda>f. \<exists>F. fips_of f = Inr F \<and> statelookup F \<noteq> None) files"
    and "\<forall>f \<in> set files. \<exists>F. fips_of f = Inr F"
  using assms
  by (induction files arbitrary: ps) (auto simp: ebind_Inr split: if_splits)

lemma main_fails_if_pop_fails:
  assumes "file \<in> set (glob_zip w)" and "fips_of file = Inr FIPS" and "statelookup FIPS \<noteq> None"
    and "process_pop w file s0 = Inl e0"
  shows "\<exists>e. main w st = Inl e"
proof (cases "main_concat w st")
  case (Inl e)
  then show ?thesis by (simp add: main_def)
next
  case (Inr r)
  obtain pop geo st2 where "r = (pop, geo, st2)"
    by (cases r)
  with Inr obtain pop_inputs st1 pop_files where
    sel: "select_pops (glob_zip w) = Inr pop_inputs"
    and cp: "compute (map (process_pop w) pop_inputs) st1 = Inr (pop_files, st2)"
    by (auto elim: main_concat_Inr)
  from select_pops_Inr(1) [OF sel] assms(1-3) have "file \<in> set pop_inputs"
    by simp
  moreover have "\<exists>e. process_pop w file s = Inl e" for s
    using process_pop_Inl_state [OF assms(4)] by blast
  ultimately have "\<exists>e. compute (map (process_pop w) pop_inputs) st1 = Inl e"
    by (rule compute_fails)
  with cp show ?thesis
    by simp
qed

lemma map_Some_member:
  assumes "map f xs = map Some rs" and "x \<in> set xs"
  shows "\<exists>r \<in> set rs. f x = Some r"
proof -
  from assms(2) have "f x \<in> set (map f xs)"
    by simp
  then show ?thesis
    unfolding assms(1) by auto
qed

lemma map_Some_source:
  assumes "map f xs = map Some rs" and "r \<in> set rs"
  shows "\<exists>x \<in> set xs. f x = Some r"
proof -
  from assms(2) have "Some r \<in> set (map Some rs)"
    by simp
  then show ?thesis
    unfolding assms(1) [symmetric] by auto
qed

lemma written_geo_path:
  assumes "written_geo w file = Some (p, d)" and "fips_of file = Inr FIPS"
  shows "p = geo_output FIPS"
proof -
  from assms(1) obtain st where "process_geo w file no_files = Inr (p, st)"
    by (auto simp: written_geo_def split: sum.splits)
  then obtain F where "fips_of file = Inr F" "p = geo_output F"
    by (rule process_geo_Inr)
  with assms(2) show ?thesis
    by simp
qed

lemma written_pop_path:
  assumes "written_pop w file = Some (p, d)"
  shows "\<exists>F. fips_of file = Inr F \<and> statelookup F \<noteq> None \<and> p = pop_output F"
proof -
  from assms(1) obtain st where "process_pop w file no_files = Inr (p, st)"
    by (auto simp: written_pop_def split: sum.splits)
  then obtain F A where "fips_of file = Inr F" "statelookup F = Some A" "p = pop_output F"
    by (rule process_pop_stored)
  then show ?thesis
    by auto
qed

subsection \<open>Facts about \<open>process_geo\<close>\<close>

lemma those_map_Some:
  "those (map g xs) = Some ys \<Longrightarrow> list_all2 (\<lambda>x y. g x = Some y) xs ys"
proof (induction xs arbitrary: ys)
  case Nil
  then show ?case by simp
next
  case (Cons x xs)
  then show ?case
    by (auto split: option.splits)
qed

lemma zip_filter_columns:
  "zip (filter P cols) (map snd (filter (\<lambda>(c, v). P c) (zip cols r)))
   = filter (\<lambda>(c, v). P c) (zip cols r)"
proof (induction cols arbitrary: r)
  case Nil
  then show ?case by simp
next
  case (Cons c cols)
  then show ?case
    by (cases r) simp_all
qed

lemma map_of_renamed_filter:
  assumes "\<forall>c. \<not> P c \<longrightarrow> f c \<noteq> k"
  shows "map_of (map (\<lambda>(c, v). (f c, v)) (filter (\<lambda>(c, v). P c) xs)) k
         = map_of (map (\<lambda>(c, v). (f c, v)) xs) k"
  using assms by (induction xs) auto

lemma zip_map_fst:
  "zip (map f cols) r = map (\<lambda>(c, v). (f c, v)) (zip cols r)"
  by (simp add: zip_map1 case_prod_unfold)

lemma drop_rename_key:
  fixes t :: "'a table"
  assumes "drop_columns labels t = Inr t1" and "\<forall>l \<in> set labels. f l \<noteq> k"
  shows "list_all2 (\<lambda>r r1. map_of (zip (columns (rename_columns f t1)) r1) k
                            = map_of (zip (map f (columns t)) r) k) (rows t) (rows t1)"
proof -
  let ?P = "\<lambda>c. c \<notin> set labels"
  from assms(1) have cols: "columns t1 = filter ?P (columns t)"
    and rows: "rows t1 = map (\<lambda>r. map snd (filter (\<lambda>(c, v). ?P c) (zip (columns t) r))) (rows t)"
    by (auto simp: drop_columns_def split: if_splits)
  have "map_of (zip (map f (filter ?P (columns t)))
                  (map snd (filter (\<lambda>(c, v). ?P c) (zip (columns t) r)))) k
        = map_of (zip (map f (columns t)) r) k" for r :: "'a cell list"
  proof -
    have "zip (map f (filter ?P (columns t)))
            (map snd (filter (\<lambda>(c, v). ?P c) (zip (columns t) r)))
          = map (\<lambda>(c, v). (f c, v)) (filter (\<lambda>(c, v). ?P c) (zip (columns t) r))"
      by (simp only: zip_map_fst zip_filter_columns)
    moreover have "\<forall>c. \<not> ?P c \<longrightarrow> f c \<noteq> k"
      using assms(2) by simp
    ultimately show ?thesis
      by (simp only: map_of_renamed_filter zip_map_fst)
  qed
  moreover have "columns (rename_columns f t1) = map f (filter ?P (columns t))"
    by (simp add: rename_columns_def cols)
  ultimately show ?thesis
    unfolding rows list_all2_map2 list_all2_same by simp
qed

lemma converted_key:
  assumes "list_all2 (\<lambda>(c, v) v'. h c v = Some v') (zip cols r) r'"
    and "\<And>v. h k v = Some v"
  shows "map_of (zip cols r') k = map_of (zip cols r) k"
  using assms(1)
proof (induction cols arbitrary: r r')
  case Nil
  then show ?case by simp
next
  case (Cons c cols)
  show ?case
  proof (cases r)
    case Nil
    with Cons.prems show ?thesis by simp
  next
    case r: (Cons v vs)
    with Cons.prems obtain v' vs' where r': "r' = v' # vs'" and v': "h c v = Some v'"
      and rest: "list_all2 (\<lambda>(c, v) v'. h c v = Some v') (zip cols vs) vs'"
      by (auto simp: list_all2_Cons1)
    from Cons.IH [OF rest] v' assms(2) [of v] show ?thesis
      by (auto simp: r r')
  qed
qed

lemma astype_key:
  assumes "astype w dtypes t = Inr t'" and "map_of dtypes k = None"
  shows "columns t' = columns t"
    and "list_all2 (\<lambda>r r'. map_of (zip (columns t) r') k = map_of (zip (columns t) r) k)
           (rows t) (rows t')"
proof -
  let ?h = "\<lambda>c v. case map_of dtypes c of None \<Rightarrow> Some v | Some ty \<Rightarrow> astype_cell w ty v"
  from assms(1) obtain rs where
    th: "those (map (\<lambda>r. those (map (\<lambda>(c, v). ?h c v) (zip (columns t) r))) (rows t)) = Some rs"
    and t': "t' = t\<lparr>rows := rs\<rparr>"
    by (auto simp: astype_def split: if_splits option.splits)
  from t' show "columns t' = columns t"
    by simp
  from th have "list_all2 (\<lambda>r r'. those (map (\<lambda>(c, v). ?h c v) (zip (columns t) r)) = Some r')
                   (rows t) rs"
    by (rule those_map_Some)
  then have "list_all2 (\<lambda>r r'. map_of (zip (columns t) r') k = map_of (zip (columns t) r) k)
               (rows t) rs"
  proof (rule list_all2_mono)
    fix r r'
    assume "those (map (\<lambda>(c, v). ?h c v) (zip (columns t) r)) = Some r'"
    then have "list_all2 (\<lambda>x v'. (case x of (c, v) \<Rightarrow> ?h c v) = Some v') (zip (columns t) r) r'"
      by (rule those_map_Some)
    then have "list_all2 (\<lambda>(c, v) v'. ?h c v = Some v') (zip (columns t) r) r'"
      by (simp add: case_prod_unfold)
    then show "map_of (zip (columns t) r') k = map_of (zip (columns t) r) k"
      by (rule converted_key) (simp add: assms(2))
  qed
  with t' show "list_all2 (\<lambda>r r'. map_of (zip (columns t) r') k = map_of (zip (columns t) r) k)
           (rows t) (rows t')"
    by simp
qed

lemma set_index_key:
  assumes "set_index k t = Inr g"
  shows "list_all2 (\<lambda>r x. map_of (zip (columns t) r) k = Some (Str (fst x))) (rows t) (irows g)"
proof -
  let ?h = "\<lambda>r. case map_of (zip (columns t) r) k of
                  Some (Str key) \<Rightarrow>
                    Some (key, map snd (filter (\<lambda>(c, v). c \<noteq> k) (zip (columns t) r)))
                | _ \<Rightarrow> None"
  from assms obtain rs where th: "those (map ?h (rows t)) = Some rs" and g: "irows g = rs"
    by (auto simp: set_index_def split: if_splits option.splits)
  from th have "list_all2 (\<lambda>r x. ?h r = Some x) (rows t) rs"
    by (rule those_map_Some)
  then have "list_all2 (\<lambda>r x. map_of (zip (columns t) r) k = Some (Str (fst x))) (rows t) rs"
    by (rule list_all2_mono) (auto split: option.splits cell.splits)
  with g show ?thesis
    by simp
qed

lemma to_numeric_keys:
  assumes "to_numeric w label g = Inr g'"
  shows "map fst (irows g') = map fst (irows g)"
proof -
  let ?h = "\<lambda>(k, r). map_option (Pair k) (those (map (\<lambda>(c, v).
                    (if c = label then to_numeric_cell w v else Some v)) (zip (icolumns g) r)))"
  from assms obtain rs where th: "those (map ?h (irows g)) = Some rs" and g': "irows g' = rs"
    by (auto simp: to_numeric_def split: if_splits option.splits)
  from th have "list_all2 (\<lambda>x y. ?h x = Some y) (irows g) rs"
    by (rule those_map_Some)
  then have "list_all2 (\<lambda>x y. fst x = fst y) (irows g) rs"
    by (rule list_all2_mono) auto
  then have "map fst (irows g) = map fst rs"
    by (induction rule: list_all2_induct) simp_all
  with g' show ?thesis
    by simp
qed

lemma geo_table_keys:
  assumes "geo_table w t = Inr g"
  shows "list_all2 (\<lambda>r key. map_of (zip (map (rstrip ''20'') (columns t)) r) ''GEOID''
                              = Some (Str key)) (rows t) (map fst (irows g))"
proof -
  let ?labels = "[''MTFCC20'', ''UR20'', ''UACE20'', ''UATYPE20'', ''FUNCSTAT20'', ''NAME20'']"
  let ?dtypes = "[(''STATEFP'', ''category''), (''COUNTYFP'', ''category''),
                  (''TRACTCE'', ''int''), (''BLOCKCE'', ''int'')]"
  let ?f = "\<lambda>x. rstrip ''20'' x"
  from assms obtain t1 t3 g1 g2 where
    d: "drop_columns ?labels t = Inr t1"
    and a: "astype w ?dtypes (rename_columns ?f t1) = Inr t3"
    and s: "set_index ''GEOID'' t3 = Inr g1"
    and n1: "to_numeric w ''INTPTLON'' g1 = Inr g2"
    and n2: "to_numeric w ''INTPTLAT'' g2 = Inr g"
    by (auto simp: geo_table_def ebind_Inr)
  have "\<forall>l \<in> set ?labels. ?f l \<noteq> ''GEOID''"
    by code_simp
  with d have 1: "list_all2 (\<lambda>r r1. map_of (zip (columns (rename_columns ?f t1)) r1) ''GEOID''
                            = map_of (zip (map ?f (columns t)) r) ''GEOID'') (rows t) (rows t1)"
    by (rule drop_rename_key)
  have none: "map_of ?dtypes ''GEOID'' = None"
    by simp
  from astype_key [OF a none]
  have c3: "columns t3 = columns (rename_columns ?f t1)"
    and 2: "list_all2 (\<lambda>r r'. map_of (zip (columns (rename_columns ?f t1)) r') ''GEOID''
                        = map_of (zip (columns (rename_columns ?f t1)) r) ''GEOID'')
              (rows t1) (rows t3)"
    by (simp_all add: rename_columns_def)
  from set_index_key [OF s]
  have 3: "list_all2 (\<lambda>r x. map_of (zip (columns (rename_columns ?f t1)) r) ''GEOID''
                        = Some (Str (fst x))) (rows t3) (irows g1)"
    by (simp add: c3)
  from 1 2 have "list_all2 (\<lambda>r r'. map_of (zip (columns (rename_columns ?f t1)) r') ''GEOID''
                            = map_of (zip (map ?f (columns t)) r) ''GEOID'') (rows t) (rows t3)"
    by (rule list_all2_trans [rotated]) simp
  from this 3 have "list_all2 (\<lambda>r x. map_of (zip (map ?f (columns t)) r) ''GEOID''
                            = Some (Str (fst x))) (rows t) (irows g1)"
    by (rule list_all2_trans [rotated]) simp
  then have "list_all2 (\<lambda>r key. map_of (zip (map ?f (columns t)) r) ''GEOID''
                            = Some (Str key)) (rows t) (map fst (irows g1))"
    by (simp add: list_all2_map2)
  moreover have "map fst (irows g) = map fst (irows g1)"
    using to_numeric_keys [OF n1] to_numeric_keys [OF n2] by simp
  ultimately show ?thesis
    by simp
qed

lemma process_covered_raises:
  assumes "fips_of file = Inr FIPS" and "statelookup FIPS \<noteq> None"
  shows "isl (process w file st)"
proof (cases "process_geo w file st")
  case (Inl e)
  then show ?thesis by (simp add: process_def)
next
  case (Inr r)
  obtain geo st1 where r: "r = (geo, st1)"
    by (cases r)
  show ?thesis
  proof (cases "process_pop w file st1")
    case (Inl e)
    with Inr r assms show ?thesis by (simp add: process_def)
  next
    case pop: (Inr q)
    obtain pop st2 where "q = (pop, st2)"
      by (cases q)
    with pop Inr r assms show ?thesis
      by (simp add: process_def pd_merge_def)
  qed
qed

lemma block_rows_provenance:
  assumes "(k, a) \<in> set (block_rows geo_df seg_1_df)"
  shows "\<exists>g \<in> set geo_df. g_SUMLEV g = 750 \<and> k = normalize_geoid (g_GEOID g)
           \<and> (case a of
                 None \<Rightarrow> \<forall>r \<in> set seg_1_df. s_LOGRECNO r \<noteq> g_LOGRECNO g
               | Some c \<Rightarrow> \<exists>r \<in> set seg_1_df. s_LOGRECNO r = g_LOGRECNO g \<and> c = s_counts r)"
proof -
  let ?kept = "filter (\<lambda>g. g_SUMLEV g = 750) geo_df"
  from assms obtain g m where gm: "(g, m) \<in> set (merge_left ?kept seg_1_df)"
    and k: "k = normalize_geoid (g_GEOID g)" and a: "a = map_option s_counts m"
    by (auto simp: block_rows_def)
  from gm have g: "g \<in> set ?kept"
    by (rule merge_left_provenance)
  have "case a of
          None \<Rightarrow> \<forall>r \<in> set seg_1_df. s_LOGRECNO r \<noteq> g_LOGRECNO g
        | Some c \<Rightarrow> \<exists>r \<in> set seg_1_df. s_LOGRECNO r = g_LOGRECNO g \<and> c = s_counts r"
  proof (cases m)
    case None
    with merge_left_provenance(2) [OF gm] a show ?thesis by simp
  next
    case (Some r)
    with merge_left_provenance(3) [OF gm] a show ?thesis by auto
  qed
  with g k show ?thesis
    by auto
qed

subsection \<open>The summary-level filter of \<open>process_pop\<close>\<close>

text \<open>
  C7: a geo-header row whose \<open>SUMLEV\<close> is not 750 is excluded. Putting such a row into
  one geo-header file changes the result of no call of \<open>process_pop\<close> or \<open>process_geo\<close>,
  for this file or any other, and not the result of the run; and every row of the table
  that \<open>process_pop\<close> writes comes from a geo-header row with \<open>SUMLEV\<close> 750.
\<close>

theorem sumlev_filter_excludes:
  assumes "g_SUMLEV r \<noteq> 750" and "read_csv_geo w p = Some (xs @ ys)"
    and "w' = w\<lparr>read_csv_geo := (read_csv_geo w)(p \<mapsto> xs @ r # ys)\<rparr>"
  shows "process_pop w' file st = process_pop w file st
       \<and> process_geo w' file st = process_geo w file st
       \<and> main w' st = main w st
       \<and> (process_pop w' file st = Inr (output, st') \<longrightarrow>
            (\<exists>FIPS ABBR geo_df block_df.
               fips_of file = Inr FIPS \<and> statelookup FIPS = Some ABBR
               \<and> read_csv_geo w' (state_geo_path ABBR) = Some geo_df
               \<and> map_option partitions (pq_pop st' output) = Some [block_df]
               \<and> (\<forall>row \<in> set block_df. \<exists>g \<in> set geo_df.
                     g_SUMLEV g = 750 \<and> fst row = normalize_geoid (g_GEOID g))))"
proof -
  have seg: "read_csv_seg w' = read_csv_seg w"
    by (simp add: assms(3))
  have geo: "map_option (filter (\<lambda>g. g_SUMLEV g = 750)) (read_csv_geo w' q)
             = map_option (filter (\<lambda>g. g_SUMLEV g = 750)) (read_csv_geo w q)" for q
    using assms(1,2) by (simp add: assms(3))
  have pop: "process_pop w' f s = process_pop w f s" for f s
    using seg geo by (rule process_pop_cong)
  have pg: "process_geo w' = process_geo w"
    by (simp add: assms(3) process_geo_read_csv_geo)
  have "main w' st = main w st"
  proof (rule main_cong)
    show "glob_zip w' = glob_zip w" and "gather_statistics w' = gather_statistics w"
      by (simp_all add: assms(3))
    show "process_geo w' = process_geo w"
      by (rule pg)
    show "process_pop w' = process_pop w"
      using pop by (simp add: fun_eq_iff)
  qed
  moreover have "\<exists>FIPS ABBR geo_df block_df.
               fips_of file = Inr FIPS \<and> statelookup FIPS = Some ABBR
               \<and> read_csv_geo w' (state_geo_path ABBR) = Some geo_df
               \<and> map_option partitions (pq_pop st' output) = Some [block_df]
               \<and> (\<forall>row \<in> set block_df. \<exists>g \<in> set geo_df.
                     g_SUMLEV g = 750 \<and> fst row = normalize_geoid (g_GEOID g))"
    if "process_pop w' file st = Inr (output, st')"
  proof -
    from that obtain FIPS ABBR seg_1_df geo_df where
      a: "fips_of file = Inr FIPS" "statelookup FIPS = Some ABBR"
        "read_csv_geo w' (state_geo_path ABBR) = Some geo_df"
        "map_option partitions (pq_pop st' output) = Some [block_table geo_df seg_1_df]"
      by (rule process_pop_stored)
    have "\<exists>g \<in> set geo_df. g_SUMLEV g = 750 \<and> fst row = normalize_geoid (g_GEOID g)"
      if "row \<in> set (block_table geo_df seg_1_df)" for row
      using that block_rows_sumlev [of row geo_df seg_1_df] by (simp add: block_table_def)
    with a show ?thesis
      by blast
  qed
  ultimately show ?thesis
    using pop pg by simp
qed

theorem sumlev_filter_excludes_witness:
  "g_SUMLEV state_level_row \<noteq> 750
   \<and> main example_world no_files
       = main (example_world\<lparr>read_csv_geo :=
                 (read_csv_geo example_world)(''population_stats/cageo2020.pl''
                    \<mapsto> example_blocks)\<rparr>) no_files
   \<and> (\<exists>output st'. process_pop example_world ''tl_2020_06_tabblock20'' no_files
                       = Inr (output, st')
        \<and> (\<exists>block_df. map_option partitions (pq_pop st' output) = Some [block_df]
             \<and> (\<forall>row \<in> set block_df. \<exists>g \<in> set (state_level_row # example_blocks).
                   g_SUMLEV g = 750 \<and> fst row = normalize_geoid (g_GEOID g))))"
proof -
  let ?p = "''population_stats/cageo2020.pl''"
  let ?w = "example_world\<lparr>read_csv_geo := (read_csv_geo example_world)(?p \<mapsto> example_blocks)\<rparr>"
  let ?w' = "?w\<lparr>read_csv_geo := (read_csv_geo ?w)(?p \<mapsto> [] @ state_level_row # example_blocks)\<rparr>"
  let ?file = "''tl_2020_06_tabblock20''"
  have h1: "g_SUMLEV state_level_row \<noteq> 750"
    by (simp add: state_level_row_def)
  have h2: "read_csv_geo ?w ?p = Some ([] @ example_blocks)"
    by simp
  have w': "?w' = example_world"
    by (simp add: example_world_def)
  have rd: "read_csv_geo example_world (state_geo_path ''CA'')
            = Some (state_level_row # example_blocks)"
  proof -
    have "lower ''CA'' = ''ca''"
      by code_simp
    then show ?thesis
      by (simp add: example_world_def state_geo_path_def)
  qed
  have "case process_pop example_world ?file no_files of Inl e \<Rightarrow> False | Inr x \<Rightarrow> True"
    by code_simp
  then obtain out st' where run: "process_pop example_world ?file no_files = Inr (out, st')"
    by (cases "process_pop example_world ?file no_files") auto
  have fips: "fips_of ?file = Inr ''06''"
    by code_simp
  have abbr: "statelookup ''06'' = Some ''CA''"
    by (simp add: statelookup_def)
  note inst = sumlev_filter_excludes [OF h1 h2 refl, of ?file no_files out st', unfolded w']
  from inst have m: "main example_world no_files = main ?w no_files"
    by blast
  from inst run obtain FIPS ABBR geo_df block_df where
    "fips_of ?file = Inr FIPS" "statelookup FIPS = Some ABBR"
    "read_csv_geo example_world (state_geo_path ABBR) = Some geo_df"
    "map_option partitions (pq_pop st' out) = Some [block_df]"
    "\<forall>row \<in> set block_df. \<exists>g \<in> set geo_df.
        g_SUMLEV g = 750 \<and> fst row = normalize_geoid (g_GEOID g)"
    by blast
  with fips abbr rd have "\<exists>block_df. map_option partitions (pq_pop st' out) = Some [block_df]
             \<and> (\<forall>row \<in> set block_df. \<exists>g \<in> set (state_level_row # example_blocks).
                   g_SUMLEV g = 750 \<and> fst row = normalize_geoid (g_GEOID g))"
    by auto
  with h1 m run show ?thesis
    by blast
qed

subsection \<open>The left join of \<open>process_pop\<close>\<close>

text \<open>
  C4: when \<open>process_pop\<close> returns, the table it has written holds exactly one row for
  every retained geo-header row (\<open>SUMLEV\<close> 750): the row carries the counts of the
  segment record with the same \<open>LOGRECNO\<close>, or no counts when there is no such record,
  and the rows are sorted by key. Every row of the table belongs to a retained geo-header
  row, and a segment record whose \<open>LOGRECNO\<close> matches no retained geo-header row is in
  no row of the join.
\<close>

theorem left_join_one_row_per_block:
  assumes "process_pop w file st = Inr (output, st')"
    and "fips_of file = Inr FIPS" and "statelookup FIPS = Some ABBR"
    and "read_csv_seg w (state_1_path ABBR) = Some seg_1_df"
    and "read_csv_geo w (state_geo_path ABBR) = Some geo_df"
    and "retained = filter (\<lambda>g. g_SUMLEV g = 750) geo_df"
  shows "\<exists>block_df.
           map_option partitions (pq_pop st' output) = Some [block_df]
           \<and> block_df = sort_key fst (map (\<lambda>g. (normalize_geoid (g_GEOID g),
                            map_option s_counts
                              (find (\<lambda>r. s_LOGRECNO r = g_LOGRECNO g) seg_1_df))) retained)
           \<and> length block_df = length retained
           \<and> (\<forall>(k, a) \<in> set block_df. \<exists>g \<in> set retained.
                 k = normalize_geoid (g_GEOID g)
                 \<and> (case a of
                       None \<Rightarrow> \<forall>r \<in> set seg_1_df. s_LOGRECNO r \<noteq> g_LOGRECNO g
                     | Some c \<Rightarrow> \<exists>r \<in> set seg_1_df.
                         s_LOGRECNO r = g_LOGRECNO g \<and> c = s_counts r))
           \<and> (\<forall>r \<in> set seg_1_df. (\<forall>g \<in> set retained. g_LOGRECNO g \<noteq> s_LOGRECNO r)
                 \<longrightarrow> (\<forall>x \<in> set (merge_left retained seg_1_df). snd x \<noteq> Some r))"
proof -
  let ?one = "map (\<lambda>g. (normalize_geoid (g_GEOID g),
                map_option s_counts (find (\<lambda>r. s_LOGRECNO r = g_LOGRECNO g) seg_1_df))) retained"
  from assms(1) have ok: "distinct (map fst (block_table geo_df seg_1_df))"
    and st': "st' = st\<lparr>pq_pop := (pq_pop st)(output
                 \<mapsto> from_pandas (block_table geo_df seg_1_df))\<rparr>"
    unfolding process_pop_cases [OF assms(2-5)] by (auto split: if_splits)
  from st' have stored: "map_option partitions (pq_pop st' output)
                         = Some [block_table geo_df seg_1_df]"
    by (simp add: partitions_from_pandas_sorted sorted_block_table)
  from ok have "distinct (map fst (block_rows geo_df seg_1_df))"
    by (simp add: block_table_def distinct_map_sort_key)
  then have rows: "block_rows geo_df seg_1_df = ?one"
    unfolding assms(6) by (rule block_rows_unique)
  then have table: "block_table geo_df seg_1_df = sort_key fst ?one"
    by (simp add: block_table_def)
  have len: "length (block_table geo_df seg_1_df) = length retained"
    by (simp add: table)
  have prov: "\<exists>g \<in> set retained. k = normalize_geoid (g_GEOID g)
                 \<and> (case a of
                       None \<Rightarrow> \<forall>r \<in> set seg_1_df. s_LOGRECNO r \<noteq> g_LOGRECNO g
                     | Some c \<Rightarrow> \<exists>r \<in> set seg_1_df.
                         s_LOGRECNO r = g_LOGRECNO g \<and> c = s_counts r)"
    if "(k, a) \<in> set (block_table geo_df seg_1_df)" for k a
  proof -
    from that have "(k, a) \<in> set (block_rows geo_df seg_1_df)"
      by (simp add: block_table_def)
    from block_rows_provenance [OF this] show ?thesis
      by (auto simp: assms(6))
  qed
  have absent: "snd x \<noteq> Some r"
    if "\<forall>g \<in> set retained. g_LOGRECNO g \<noteq> s_LOGRECNO r"
      and "x \<in> set (merge_left retained seg_1_df)" for r x
  proof
    assume "snd x = Some r"
    then have "x = (fst x, Some r)"
      by (cases x) simp
    with that(2) have "(fst x, Some r) \<in> set (merge_left retained seg_1_df)"
      by simp
    then have "fst x \<in> set retained" and "s_LOGRECNO r = g_LOGRECNO (fst x)"
      using merge_left_provenance(1) [of "fst x" "Some r" retained seg_1_df]
        merge_left_provenance(3) [of "fst x" "Some r" retained seg_1_df r] by simp_all
    with that(1) show False
      by auto
  qed
  show ?thesis
    using stored table len prov absent by (intro exI [of _ "block_table geo_df seg_1_df"]) blast
qed

theorem left_join_one_row_per_block_witness:
  "\<exists>out st'.
     process_pop example_world ''tl_2020_06_tabblock20'' no_files = Inr (out, st')
     \<and> map_option partitions (pq_pop st' out)
         = Some [[(''060014001001000'', Some [12]), (''060014001001001'', Some [0]),
                  (''060014001001002'', None)]]
     \<and> (\<forall>x \<in> set (merge_left example_blocks example_seg). snd x \<noteq> Some (example_seg ! 3))"
proof -
  let ?file = "''tl_2020_06_tabblock20''"
  have "case process_pop example_world ?file no_files of Inl e \<Rightarrow> False | Inr x \<Rightarrow> True"
    by code_simp
  then obtain out st' where run: "process_pop example_world ?file no_files = Inr (out, st')"
    by (cases "process_pop example_world ?file no_files") auto
  have fips: "fips_of ?file = Inr ''06''"
    by code_simp
  have abbr: "statelookup ''06'' = Some ''CA''"
    by (simp add: statelookup_def)
  have low: "lower ''CA'' = ''ca''"
    by code_simp
  have seg: "read_csv_seg example_world (state_1_path ''CA'') = Some example_seg"
    by (simp add: example_world_def state_1_path_def low)
  have geo: "read_csv_geo example_world (state_geo_path ''CA'')
             = Some (state_level_row # example_blocks)"
    by (simp add: example_world_def state_geo_path_def low)
  have kept: "example_blocks = filter (\<lambda>g. g_SUMLEV g = 750) (state_level_row # example_blocks)"
    by (simp add: example_blocks_def state_level_row_def)
  have sorted_rows: "sort_key fst (map (\<lambda>g. (normalize_geoid (g_GEOID g),
                            map_option s_counts
                              (find (\<lambda>r. s_LOGRECNO r = g_LOGRECNO g) example_seg)))
                        example_blocks)
        = [(''060014001001000'', Some [12]), (''060014001001001'', Some [0]),
           (''060014001001002'', None)]"
    by code_simp
  have unmatched: "\<forall>g \<in> set example_blocks. g_LOGRECNO g \<noteq> s_LOGRECNO (example_seg ! 3)"
    by (simp add: example_blocks_def example_seg_def)
  have member: "example_seg ! 3 \<in> set example_seg"
    by (simp add: example_seg_def)
  from left_join_one_row_per_block [OF run fips abbr seg geo kept] sorted_rows unmatched member
  have "map_option partitions (pq_pop st' out)
         = Some [[(''060014001001000'', Some [12]), (''060014001001001'', Some [0]),
                  (''060014001001002'', None)]]
     \<and> (\<forall>x \<in> set (merge_left example_blocks example_seg). snd x \<noteq> Some (example_seg ! 3))"
    by auto
  with run show ?thesis
    by blast
qed

subsection \<open>The concatenation and the tables read back\<close>

text \<open>
  C1: the tables of the units are concatenated in the order of their sorted paths, which
  is the order of the region codes. When the concatenation has known divisions, its
  partitions are those of the units in that order, pairwise disjoint in their keys and
  increasing. The property is asserted for both tables right after the concatenation: a
  run whose concatenation lacks it ends in \<open>AssertionError\<close>, and a run that returns has
  it for the two tables it has written.
\<close>

theorem concat_known_divisions:
  assumes "main_concat w st = Inr (pop, geo, st2)"
  shows "(\<not> known_divisions pop \<or> \<not> known_divisions geo \<longrightarrow> main w st = Inl AssertionError)
       \<and> (known_divisions pop \<longrightarrow>
            key_ranges_increasing (partitions pop)
            \<and> (\<exists>pop_inputs rs. select_pops (glob_zip w) = Inr pop_inputs
                 \<and> map (written_pop w) pop_inputs = map Some rs
                 \<and> partitions pop = concat (map (\<lambda>r. partitions (snd r)) (sort_key fst rs))))
       \<and> (known_divisions geo \<longrightarrow>
            key_ranges_increasing (partitions geo)
            \<and> (\<exists>rs. map (written_geo w) (glob_zip w) = map Some rs
                 \<and> partitions geo = concat (map (\<lambda>r. partitions (snd r)) (sort_key fst rs))))
       \<and> (main w st = Inr st' \<longrightarrow>
            known_divisions pop \<and> known_divisions geo
            \<and> pq_pop st' OUT_POP = Some pop \<and> pq_geo st' OUT_GEO = Some geo)"
proof -
  from assms obtain pop_inputs prs grs where
    m: "select_pops (glob_zip w) = Inr pop_inputs"
      "map (written_pop w) pop_inputs = map Some prs"
      "map (written_geo w) (glob_zip w) = map Some grs"
    and p: "known_divisions pop \<longrightarrow>
           distinct (map fst prs) \<and> key_ranges_increasing (partitions pop)
           \<and> partitions pop = concat (map (\<lambda>r. partitions (snd r)) (sort_key fst prs))"
    and g: "known_divisions geo \<longrightarrow>
           distinct (map fst grs) \<and> key_ranges_increasing (partitions geo)
           \<and> partitions geo = concat (map (\<lambda>r. partitions (snd r)) (sort_key fst grs))"
    by (rule main_concat_merged)
  have 1: "main w st = Inl AssertionError" if "\<not> known_divisions pop \<or> \<not> known_divisions geo"
    using that by (auto simp: main_after_concat [OF assms])
  have 4: "known_divisions pop \<and> known_divisions geo
            \<and> pq_pop st' OUT_POP = Some pop \<and> pq_geo st' OUT_GEO = Some geo"
    if "main w st = Inr st'"
    using that by (auto simp: main_after_concat [OF assms] split: if_splits)
  from m p g 1 4 show ?thesis
    by blast
qed

theorem concat_known_divisions_witness:
  "(\<exists>pop geo st2. main_concat example_world no_files = Inr (pop, geo, st2)
      \<and> known_divisions pop \<and> known_divisions geo
      \<and> key_ranges_increasing (partitions pop) \<and> key_ranges_increasing (partitions geo))
   \<and> (\<exists>pop geo st2. main_concat overlap_world no_files = Inr (pop, geo, st2)
      \<and> \<not> known_divisions geo \<and> main overlap_world no_files = Inl AssertionError)"
proof -
  have "case main_concat example_world no_files of
          Inl e \<Rightarrow> False
        | Inr (pop, geo, st2) \<Rightarrow> known_divisions pop \<and> known_divisions geo"
    by code_simp
  then obtain pop geo st2 where run: "main_concat example_world no_files = Inr (pop, geo, st2)"
    and k: "known_divisions pop" "known_divisions geo"
    by (cases "main_concat example_world no_files") auto
  from concat_known_divisions [OF run] k
  have a: "key_ranges_increasing (partitions pop) \<and> key_ranges_increasing (partitions geo)"
    by blast
  have "case main_concat overlap_world no_files of
          Inl e \<Rightarrow> False
        | Inr (pop, geo, st2) \<Rightarrow> \<not> known_divisions geo"
    by code_simp
  then obtain pop' geo' st2' where
    run': "main_concat overlap_world no_files = Inr (pop', geo', st2')"
    and k': "\<not> known_divisions geo'"
    by (cases "main_concat overlap_world no_files") auto
  from concat_known_divisions [OF run'] k'
  have b: "main overlap_world no_files = Inl AssertionError"
    by blast
  from run k a run' k' b show ?thesis
    by blast
qed




subsection \<open>The index of the population table\<close>

text \<open>
  C2: when \<open>process_pop\<close> returns, the table it has written for the unit has one
  partition whose index is unique and sorted in ascending order of the keys. When the
  index of the block table is not unique, \<open>process_pop\<close> ends in \<open>AssertionError\<close>,
  and a run that has this file among its inputs does not return: it ends in an exception.
\<close>

theorem pop_index_unique_sorted:
  "(process_pop w file st = Inr (output, st') \<longrightarrow>
      (\<exists>block_df. map_option partitions (pq_pop st' output) = Some [block_df]
         \<and> distinct (map fst block_df) \<and> sorted (map fst block_df)
         \<and> sorted_wrt (<) (map fst block_df)))
   \<and> (fips_of file = Inr FIPS \<and> statelookup FIPS = Some ABBR
        \<and> read_csv_seg w (state_1_path ABBR) = Some seg_1_df
        \<and> read_csv_geo w (state_geo_path ABBR) = Some geo_df
        \<and> \<not> distinct (map fst (block_table geo_df seg_1_df)) \<longrightarrow>
          process_pop w file st = Inl AssertionError
          \<and> (file \<in> set (glob_zip w) \<longrightarrow> (\<exists>e. main w st0 = Inl e)))"
proof (intro conjI impI)
  assume "process_pop w file st = Inr (output, st')"
  then obtain geo_df seg_1_df where
    d: "distinct (map fst (block_table geo_df seg_1_df))"
    and s: "map_option partitions (pq_pop st' output) = Some [block_table geo_df seg_1_df]"
    by (rule process_pop_stored)
  moreover have "sorted (map fst (block_table geo_df seg_1_df))"
    by (rule sorted_block_table)
  ultimately show "\<exists>block_df. map_option partitions (pq_pop st' output) = Some [block_df]
         \<and> distinct (map fst block_df) \<and> sorted (map fst block_df)
         \<and> sorted_wrt (<) (map fst block_df)"
    by (auto simp: strict_sorted_iff)
next
  assume a: "fips_of file = Inr FIPS \<and> statelookup FIPS = Some ABBR
        \<and> read_csv_seg w (state_1_path ABBR) = Some seg_1_df
        \<and> read_csv_geo w (state_geo_path ABBR) = Some geo_df
        \<and> \<not> distinct (map fst (block_table geo_df seg_1_df))"
  then have f: "process_pop w file s = Inl AssertionError" for s
    by (simp add: process_pop_cases)
  then show "process_pop w file st = Inl AssertionError" .
  assume "file \<in> set (glob_zip w)"
  then show "\<exists>e. main w st0 = Inl e"
    using a f [of st] by (intro main_fails_if_pop_fails [of "file" w FIPS st]) auto
qed

theorem pop_index_unique_sorted_witness:
  "(\<exists>out st'. process_pop example_world ''tl_2020_06_tabblock20'' no_files = Inr (out, st')
       \<and> (\<exists>block_df. map_option partitions (pq_pop st' out) = Some [block_df]
             \<and> distinct (map fst block_df) \<and> sorted (map fst block_df)))
   \<and> process_pop duplicate_seg_world ''tl_2020_06_tabblock20'' no_files = Inl AssertionError
   \<and> (\<exists>e. main duplicate_seg_world no_files = Inl e)"
proof -
  let ?file = "''tl_2020_06_tabblock20''"
  have "case process_pop example_world ?file no_files of Inl e \<Rightarrow> False | Inr x \<Rightarrow> True"
    by code_simp
  then obtain out st' where run: "process_pop example_world ?file no_files = Inr (out, st')"
    by (cases "process_pop example_world ?file no_files") auto
  from pop_index_unique_sorted [of example_world ?file no_files out st'] run
  have 1: "\<exists>block_df. map_option partitions (pq_pop st' out) = Some [block_df]
             \<and> distinct (map fst block_df) \<and> sorted (map fst block_df)"
    by blast
  have fips: "fips_of ?file = Inr ''06''"
    by code_simp
  have abbr: "statelookup ''06'' = Some ''CA''"
    by (simp add: statelookup_def)
  have low: "lower ''CA'' = ''ca''"
    by code_simp
  let ?seg = "example_seg @
            [\<lparr>s_FILEID = ''PLST'', s_STUSAB = ''CA'', s_CHARITER = 0, s_CIFSN = 1,
              s_LOGRECNO = 7, s_counts = [13]\<rparr>]"
  have seg: "read_csv_seg duplicate_seg_world (state_1_path ''CA'') = Some ?seg"
    by (simp add: duplicate_seg_world_def state_1_path_def low)
  have geo: "read_csv_geo duplicate_seg_world (state_geo_path ''CA'')
             = Some (state_level_row # example_blocks)"
    by (simp add: duplicate_seg_world_def example_world_def state_geo_path_def low)
  have dup: "\<not> distinct (map fst (block_table (state_level_row # example_blocks) ?seg))"
    by code_simp
  have mem: "?file \<in> set (glob_zip duplicate_seg_world)"
    by (simp add: duplicate_seg_world_def example_world_def)
  from pop_index_unique_sorted [of duplicate_seg_world ?file no_files _ _ "''06''" "''CA''"
      ?seg "state_level_row # example_blocks" no_files] fips abbr seg geo dup mem
  have 2: "process_pop duplicate_seg_world ?file no_files = Inl AssertionError
         \<and> (\<exists>e. main duplicate_seg_world no_files = Inl e)"
    by blast
  from run 1 2 show ?thesis
    by blast
qed

subsection \<open>Files whose region code is not in the lookup table\<close>

text \<open>
  C6: in a run that returns, a file whose region code is not in the lookup table is
  geometry-extracted, and the table written for it is among the partitions of the global
  geometry table. It is not among the files handed to \<open>process_pop\<close>: the global
  population table is the concatenation of the tables of the files whose region code is
  in the lookup table, each written under the path of such a code. The missing code is
  no error: the run returns.
\<close>

theorem uncovered_region_geometry_only:
  assumes "main w st = Inr st'" and "file \<in> set (glob_zip w)"
    and "fips_of file = Inr FIPS" and "statelookup FIPS = None"
  shows "\<exists>pop geo d pop_inputs rs.
           pq_pop st' OUT_POP = Some pop \<and> pq_geo st' OUT_GEO = Some geo
           \<and> written_geo w file = Some (geo_output FIPS, d)
           \<and> set (partitions d) \<subseteq> set (partitions geo)
           \<and> select_pops (glob_zip w) = Inr pop_inputs \<and> file \<notin> set pop_inputs
           \<and> (\<forall>f \<in> set pop_inputs. \<exists>F. fips_of f = Inr F \<and> statelookup F \<noteq> None)
           \<and> map (written_pop w) pop_inputs = map Some rs
           \<and> partitions pop = concat (map (\<lambda>r. partitions (snd r)) (sort_key fst rs))
           \<and> (\<forall>r \<in> set rs. \<exists>F. fst r = pop_output F \<and> statelookup F \<noteq> None)
           \<and> process_pop w file st = Inl KeyError"
proof -
  from assms(1) obtain pop geo st2 where mc: "main_concat w st = Inr (pop, geo, st2)"
    and k: "known_divisions pop" "known_divisions geo"
    and st': "st' = st2\<lparr>pq_pop := (pq_pop st2)(OUT_POP \<mapsto> pop),
                         pq_geo := (pq_geo st2)(OUT_GEO \<mapsto> geo)\<rparr>"
    by (rule main_Inr)
  from mc obtain pop_inputs prs grs where
    sel: "select_pops (glob_zip w) = Inr pop_inputs"
    and prs: "map (written_pop w) pop_inputs = map Some prs"
    and grs: "map (written_geo w) (glob_zip w) = map Some grs"
    and p: "known_divisions pop \<longrightarrow>
           distinct (map fst prs) \<and> key_ranges_increasing (partitions pop)
           \<and> partitions pop = concat (map (\<lambda>r. partitions (snd r)) (sort_key fst prs))"
    and g: "known_divisions geo \<longrightarrow>
           distinct (map fst grs) \<and> key_ranges_increasing (partitions geo)
           \<and> partitions geo = concat (map (\<lambda>r. partitions (snd r)) (sort_key fst grs))"
    by (rule main_concat_merged)
  from map_Some_member [OF grs assms(2)] obtain r where r: "r \<in> set grs"
    and wr: "written_geo w file = Some r"
    by blast
  from wr have path: "fst r = geo_output FIPS"
    using written_geo_path [of w "file" "fst r" "snd r" FIPS] assms(3) by simp
  from r g k have "set (partitions (snd r)) \<subseteq> set (partitions geo)"
    by auto
  with wr path have 1: "written_geo w file = Some (geo_output FIPS, snd r)
                        \<and> set (partitions (snd r)) \<subseteq> set (partitions geo)"
    by (cases r) simp
  from select_pops_Inr(1) [OF sel] assms(3,4)
  have 2: "file \<notin> set pop_inputs"
    and 3: "\<forall>f \<in> set pop_inputs. \<exists>F. fips_of f = Inr F \<and> statelookup F \<noteq> None"
    by auto
  have 4: "\<forall>r \<in> set prs. \<exists>F. fst r = pop_output F \<and> statelookup F \<noteq> None"
  proof
    fix r assume "r \<in> set prs"
    from map_Some_source [OF prs this] obtain f where "written_pop w f = Some (fst r, snd r)"
      by auto
    from written_pop_path [OF this] show "\<exists>F. fst r = pop_output F \<and> statelookup F \<noteq> None"
      by blast
  qed
  have 5: "process_pop w file st = Inl KeyError"
    using assms(3,4) by (simp add: process_pop_def)
  from st' have "pq_pop st' OUT_POP = Some pop" "pq_geo st' OUT_GEO = Some geo"
    by simp_all
  with 1 sel 2 3 prs p k 4 5 show ?thesis
    by blast
qed

theorem uncovered_region_geometry_only_witness:
  "statelookup ''78'' = None
   \<and> (\<exists>st' pop geo d.
         main example_world no_files = Inr st'
         \<and> pq_pop st' OUT_POP = Some pop \<and> pq_geo st' OUT_GEO = Some geo
         \<and> written_geo example_world ''tl_2020_78_tabblock20'' = Some (geo_output ''78'', d)
         \<and> set (partitions d) \<subseteq> set (partitions geo)
         \<and> process_pop example_world ''tl_2020_78_tabblock20'' no_files = Inl KeyError)"
proof -
  let ?file = "''tl_2020_78_tabblock20''"
  have "case main example_world no_files of Inl e \<Rightarrow> False | Inr x \<Rightarrow> True"
    by code_simp
  then obtain st' where run: "main example_world no_files = Inr st'"
    by (cases "main example_world no_files") auto
  have mem: "?file \<in> set (glob_zip example_world)"
    by (simp add: example_world_def)
  have fips: "fips_of ?file = Inr ''78''"
    by code_simp
  have none: "statelookup ''78'' = None"
    by (simp add: statelookup_def)
  from uncovered_region_geometry_only [OF run mem fips none] none run show ?thesis
    by blast
qed

subsection \<open>The index of the geometry table\<close>

text \<open>
  C9: \<open>process_geo\<close> makes \<open>GEOID\<close> the index and checks nothing about it, where
  \<open>process_pop\<close> asserts that its index is unique (line 124). For a shapefile with the
  same identifier in two records \<open>process_geo\<close> returns, and the index of the table it
  has written holds that identifier twice; the whole run returns as well.
\<close>

theorem geo_index_not_unique:
  "map_option (map (map fst) \<circ> partitions \<circ> snd)
     (written_geo duplicate_geoid_world ''tl_2020_78_tabblock20'')
   = Some [[''780109701001000'', ''780109701001000'']]
   \<and> \<not> isl (main duplicate_geoid_world no_files)"
  by code_simp

text \<open>
  What does hold of \<open>process_geo\<close>: when it returns, the table it has written has one
  partition with exactly one row for every record of the shapefile; its index is the
  sorted list of the identifiers of the records, so it is unique exactly when the
  identifiers of the records are.
\<close>

theorem geo_one_row_per_record:
  assumes "process_geo w file st = Inr (output, st')" and "read_file w file = Some t"
  shows "\<exists>df. map_option partitions (pq_geo st' output) = Some [df]
              \<and> length df = length (rows t)
              \<and> map fst df = sort (map (geoid_of (columns t)) (rows t))
              \<and> (distinct (map fst df) \<longleftrightarrow> distinct (map (geoid_of (columns t)) (rows t)))"
proof -
  from assms obtain gdf where gt: "geo_table w t = Inr gdf"
    and st': "st' = st\<lparr>pq_geo := (pq_geo st)(output \<mapsto> from_pandas (named_rows gdf))\<rparr>"
    by (auto elim!: process_geo_Inr)
  let ?df = "sort_key fst (named_rows gdf)"
  from st' have stored: "map_option partitions (pq_geo st' output) = Some [?df]"
    by (simp add: partitions_from_pandas)
  from geo_table_keys [OF gt]
  have "list_all2 (\<lambda>r key. geoid_of (columns t) r = key) (rows t) (map fst (irows gdf))"
    by (rule list_all2_mono) (simp add: geoid_of_def)
  then have keys: "map (geoid_of (columns t)) (rows t) = map fst (irows gdf)"
    by (induction rule: list_all2_induct) simp_all
  have named: "map fst (named_rows gdf) = map fst (irows gdf)"
    by (simp add: named_rows_def case_prod_unfold)
  have idx: "map fst ?df = sort (map (geoid_of (columns t)) (rows t))"
    by (simp add: map_fst_sort_key named keys)
  have "length ?df = length (map fst (named_rows gdf))"
    by simp
  also have "\<dots> = length (rows t)"
    unfolding named keys [symmetric] by simp
  finally have len: "length ?df = length (rows t)" .
  from idx have "distinct (map fst ?df) \<longleftrightarrow> distinct (map (geoid_of (columns t)) (rows t))"
    by simp
  with stored len idx show ?thesis
    by blast
qed

theorem geo_one_row_per_record_witness:
  "\<exists>out st' df.
     process_geo example_world ''tl_2020_06_tabblock20'' no_files = Inr (out, st')
     \<and> map_option partitions (pq_geo st' out) = Some [df]
     \<and> length df = 3
     \<and> map fst df = [''060014001001000'', ''060014001001001'', ''060014001001002'']
     \<and> distinct (map fst df)"
proof -
  let ?file = "''tl_2020_06_tabblock20''"
  let ?t = "\<lparr>columns = example_columns,
             rows = [example_row ''06'' ''060014001001002'',
                     example_row ''06'' ''060014001001000'',
                     example_row ''06'' ''060014001001001'']\<rparr> :: string table"
  have "case process_geo example_world ?file no_files of Inl e \<Rightarrow> False | Inr x \<Rightarrow> True"
    by code_simp
  then obtain out st' where run: "process_geo example_world ?file no_files = Inr (out, st')"
    by (cases "process_geo example_world ?file no_files") auto
  have rd: "read_file example_world ?file = Some ?t"
    by (simp add: example_world_def)
  have ids: "sort (map (geoid_of (columns ?t)) (rows ?t))
             = [''060014001001000'', ''060014001001001'', ''060014001001002'']"
    by code_simp
  from geo_one_row_per_record [OF run rd] obtain df where
    "map_option partitions (pq_geo st' out) = Some [df]" "length df = length (rows ?t)"
    "map fst df = sort (map (geoid_of (columns ?t)) (rows ?t))"
    by blast
  with run ids show ?thesis
    by (intro exI [of _ out] exI [of _ st'] exI [of _ df]) simp
qed

subsection \<open>The comparison of the two tables of a unit\<close>

text \<open>
  C3: \<open>process\<close> is the only place that compares the two tables of a unit, and \<open>main\<close>
  never calls it. Called on a unit whose tables agree, it hands the two paths to
  \<open>pd.merge\<close> and ends in \<open>TypeError\<close>. A run over a unit whose population table has
  a block that the geometry table lacks returns.
\<close>

theorem validator_raises_and_is_not_run:
  "isl (process example_world ''tl_2020_06_tabblock20'' no_files)
   \<and> projl (process example_world ''tl_2020_06_tabblock20'' no_files) = TypeError
   \<and> map_option (map (map fst) \<circ> partitions \<circ> snd)
        (written_pop orphan_world ''tl_2020_06_tabblock20'')
      = Some [[''060014001001000'', ''060014001001001'', ''060014001001002'']]
   \<and> map_option (map (map fst) \<circ> partitions \<circ> snd)
        (written_geo orphan_world ''tl_2020_06_tabblock20'')
      = Some [[''060014001001000'', ''060014001001001'']]
   \<and> \<not> isl (main orphan_world no_files)"
  by code_simp

end
